theory Spec2Isabelle
  imports Main "HOL-Library.Char_ord" "HOL-Library.List_Lexorder" "HOL-Library.AList"
begin

section \<open>The ISIS LSDB data plugin (cli\_isis\_data.py)\<close>

text \<open>
  The plugin keeps three containers on one instance: \<open>nodes_dict\<close> (node id to node
  dictionary), \<open>links_dict\<close> (sorted tuple of source, target and label to a list of link
  dictionaries) and \<open>graph_dict\<close> (the payload handed to the drawing). Link dictionaries
  are shared between \<open>links_dict\<close> and \<open>graph_dict["links"]\<close> and are mutated in place,
  so links live in an explicit object store and the containers hold addresses.
\<close>

subsection \<open>Python values and errors\<close>

datatype pyval = PNone | PStr string

text \<open>The exceptions the plugin can end with; \<open>ModuleNotFoundError\<close> and \<open>TypeError\<close> are
  raised by \<open>_parse\<close>, \<open>OSError\<close> by \<open>open\<close>, \<open>CsvError\<close> (\<open>csv.Error\<close>) and \<open>UnicodeDecodeError\<close>
  by the CSV reader.\<close>

datatype error = KeyError | ValueError | RuntimeError | OSError | ModuleNotFoundError | TypeError
  | CsvError | UnicodeDecodeError

text \<open>Truth value of a Python object that is \<open>None\<close> or a \<open>str\<close>.\<close>

fun truthy :: "pyval \<Rightarrow> bool" where
  "truthy PNone = False"
| "truthy (PStr s) = (s \<noteq> [])"

text \<open>\<open>"{}".format(v)\<close> for \<open>None\<close> or a \<open>str\<close>.\<close>

fun py_str :: "pyval \<Rightarrow> string" where
  "py_str PNone = ''None''"
| "py_str (PStr s) = s"

text \<open>\<open>s.split(c)\<close> for a one-character separator: one more part than separators.\<close>

fun split_on :: "char \<Rightarrow> string \<Rightarrow> string list" where
  "split_on c [] = [[]]"
| "split_on c (x # xs) =
     (if x = c then [] # split_on c xs
      else (case split_on c xs of [] \<Rightarrow> [[x]] | p # ps \<Rightarrow> (x # p) # ps))"

text \<open>\<open>a, b = s.split(":")\<close>: unpacking anything but two parts raises \<open>ValueError\<close>.\<close>

definition split2 :: "string \<Rightarrow> error + (string \<times> string)" where
  "split2 s = (case split_on (CHR '':'') s of [a, b] \<Rightarrow> Inr (a, b) | _ \<Rightarrow> Inl ValueError)"

text \<open>\<open>s.replace(old, new)\<close> for a non-empty \<open>old\<close>: leftmost non-overlapping occurrences.\<close>

function str_replace :: "string \<Rightarrow> string \<Rightarrow> string \<Rightarrow> string" where
  "str_replace old new s =
     (if s = [] \<or> old = [] then s
      else if take (length old) s = old then new @ str_replace old new (drop (length old) s)
      else hd s # str_replace old new (tl s))"
  by pat_completeness auto
termination
  by (relation "measure (\<lambda>(old, new, s). length s)") auto

subsection \<open>Link dictionaries\<close>

text \<open>
  A JSON text written by \<open>json.dumps(d, sort_keys=True, ...)\<close> for a dictionary \<open>d\<close> keyed by
  hostname is represented by the key-sorted item list of \<open>d\<close>; \<open>json.loads\<close> gives the items
  back. The value stored under a hostname is the ISIS process id with the adjacency
  reported by the parser. An adjacency has the keys the plugin reads, \<open>peer_name\<close> and
  \<open>metric\<close>, which it reads with \<open>link[...]\<close> and which the parser always gives, and the
  four optional keys it reads with \<open>link.get(...)\<close>, and in \<open>adj_other\<close> every other key the
  parser gave with its value, in key order: the description of a link is written from the
  whole adjacency.
\<close>

record adjacency =
  peer_name :: string
  metric :: string
  adj_local_ip :: "string option"
  adj_peer_ip :: "string option"
  adj_local_intf_id :: "string option"
  adj_peer_intf_id :: "string option"
  adj_other :: "(string \<times> string) list"

type_synonym link_data = "(string \<times> (string \<times> adjacency)) list"

definition json_dumps :: "link_data \<Rightarrow> link_data" where
  "json_dumps d = sort_key fst d"

definition json_loads :: "link_data \<Rightarrow> link_data" where
  "json_loads t = t"

text \<open>\<open>{**a, **b}\<close>: the keys of \<open>a\<close> in their order, values replaced from \<open>b\<close>, then the new keys
  of \<open>b\<close>.\<close>

definition dict_merge :: "('k \<times> 'v) list \<Rightarrow> ('k \<times> 'v) list \<Rightarrow> ('k \<times> 'v) list" where
  "dict_merge a b = fold (\<lambda>(k, v). AList.update k v) b a"

text \<open>
  A link dictionary. \<open>source\<close> and \<open>target\<close> are always there; for every other key \<open>None\<close>
  says that the key is absent. The four correlation keys hold \<open>None\<close> or a string when
  present.
\<close>

record link =
  source :: string
  target :: string
  label :: "string option"
  src_label :: "string option"
  trgt_label :: "string option"
  description :: "link_data option"
  local_intf_id :: "pyval option"
  peer_intf_id :: "pyval option"
  peer_ip :: "pyval option"
  local_ip :: "pyval option"

type_synonym hash_tuple = "string list"

text \<open>\<open>tuple(sorted([data["source"], data["target"], data.get("label", "")]))\<close>\<close>

definition make_hash_tuple :: "link \<Rightarrow> hash_tuple" where
  "make_hash_tuple d =
     sort [source d, target d, (case label d of None \<Rightarrow> [] | Some l \<Rightarrow> l)]"

text \<open>Position of the first element equal to \<open>x\<close> (\<open>list.index\<close>; \<open>None\<close> is its \<open>ValueError\<close>).\<close>

fun list_index :: "'a list \<Rightarrow> 'a \<Rightarrow> nat option" where
  "list_index [] x = None"
| "list_index (y # ys) x = (if y = x then Some 0 else map_option Suc (list_index ys x))"

text \<open>\<open>xs.pop(j)\<close> as far as the list is concerned.\<close>

definition remove_at :: "nat \<Rightarrow> 'a list \<Rightarrow> 'a list" where
  "remove_at j xs = take j xs @ drop (Suc j) xs"

subsection \<open>Parsed records, nodes, configuration and state\<close>

text \<open>
  The parser's result: a device maps ISIS process ids to their LSPs (absent keys of
  \<open>device.get("isis_processes", {})\<close> and \<open>isis_data.get("LSP", [])\<close> are empty lists here,
  as are \<open>links\<close> and \<open>networks\<close> of an LSP).
\<close>

record connected =
  network :: string
  net_metric :: string

record lsp =
  hostname :: string
  rid :: string
  level :: string
  links :: "adjacency list"
  networks :: "connected list"

type_synonym device = "(string \<times> lsp list) list"

text \<open>A node dictionary; the JSON text of its description is represented by the LSP dumped.\<close>

record node =
  node_id :: string
  node_label :: "string option"
  bottom_label :: "string option"
  top_label :: "string option"
  node_description :: "lsp option"

text \<open>The lookup table as the constructor is given it as a dictionary: IP address to a
  record of strings, both dictionaries in the order of insertion.\<close>

type_synonym lookup_table = "(string \<times> (string \<times> string) list) list"

record config =
  add_connected :: bool
  ptp_filter :: "string list"
  add_data :: bool
  ip_lookup_data :: lookup_table

text \<open>
  \<open>heap\<close> is the store of link dictionaries, an address is an index into it. \<open>drawing\<close>
  collects what \<open>drawing.from_dict\<close> was given, call by call.
\<close>

record state =
  heap :: "link list"
  parsed_data :: "device list"
  nodes_dict :: "(string \<times> node) list"
  links_dict :: "(hash_tuple \<times> nat list) list"
  graph_nodes :: "node list"
  graph_links :: "nat list"
  drawing :: "(node list \<times> link list) list"

definition init_state :: state where
  "init_state = \<lparr>heap = [], parsed_data = [], nodes_dict = [], links_dict = [],
                  graph_nodes = [], graph_links = [], drawing = []\<rparr>"

text \<open>A new dictionary object.\<close>

definition alloc :: "link \<Rightarrow> state \<Rightarrow> nat \<times> state" where
  "alloc l st = (length (heap st), st\<lparr>heap := heap st @ [l]\<rparr>)"

text \<open>The link dictionaries an address list stands for.\<close>

definition deref :: "state \<Rightarrow> nat list \<Rightarrow> link list" where
  "deref st as = map ((!) (heap st)) as"

subsection \<open>Graph builder\<close>

definition fill_absent :: "node \<Rightarrow> node \<Rightarrow> node" where
  "fill_absent stored n =
     stored\<lparr>node_label := (case node_label stored of None \<Rightarrow> node_label n | Some v \<Rightarrow> Some v),
            bottom_label := (case bottom_label stored of None \<Rightarrow> bottom_label n | Some v \<Rightarrow> Some v),
            top_label := (case top_label stored of None \<Rightarrow> top_label n | Some v \<Rightarrow> Some v),
            node_description :=
              (case node_description stored of None \<Rightarrow> node_description n | Some v \<Rightarrow> Some v)\<rparr>"

text \<open>\<open>_add_node(node, node_data)\<close>; \<open>node_data = None\<close> is the empty default.\<close>

definition add_node :: "config \<Rightarrow> node \<Rightarrow> lsp option \<Rightarrow> state \<Rightarrow> state" where
  "add_node cfg n node_data st =
     (case map_of (nodes_dict st) (node_id n) of
        None \<Rightarrow>
          st\<lparr>nodes_dict :=
               AList.update (node_id n)
                 (if node_data \<noteq> None \<and> add_data cfg then n\<lparr>node_description := node_data\<rparr> else n)
                 (nodes_dict st)\<rparr>
      | Some stored_node \<Rightarrow>
          (let s1 = fill_absent stored_node n;
               s2 = (if node_description s1 = None \<and> node_data \<noteq> None \<and> add_data cfg
                     then s1\<lparr>node_description := node_data\<rparr> else s1)
           in st\<lparr>nodes_dict := AList.update (node_id n) s2 (nodes_dict st)\<rparr>))"

text \<open>\<open>self.links_dict[h]\<close> once \<open>setdefault(h, [])\<close> has run.\<close>

definition group_of :: "state \<Rightarrow> hash_tuple \<Rightarrow> nat list" where
  "group_of st h = (case map_of (links_dict st) h of None \<Rightarrow> [] | Some g \<Rightarrow> g)"

text \<open>\<open>_add_link(link, link_data)\<close> for the link object at address \<open>a\<close>.\<close>

definition add_link :: "config \<Rightarrow> nat \<Rightarrow> link_data \<Rightarrow> state \<Rightarrow> state" where
  "add_link cfg a ld st =
     (let link_hash = make_hash_tuple (heap st ! a);
          grp = group_of st link_hash
      in if heap st ! a \<in> set (deref st grp)
         then st\<lparr>links_dict := AList.update link_hash grp (links_dict st)\<rparr>
         else st\<lparr>heap := (heap st)[a := (if ld \<noteq> [] \<and> add_data cfg
                                           then (heap st ! a)\<lparr>description := Some (json_dumps ld)\<rparr>
                                           else heap st ! a)],
                 links_dict := AList.update link_hash (grp @ [a]) (links_dict st)\<rparr>)"

definition opt_val :: "string option \<Rightarrow> pyval" where
  "opt_val v = (case v of None \<Rightarrow> PNone | Some s \<Rightarrow> PStr s)"

text \<open>\<open>any([fnmatchcase(link.get("local_ip", ""), p) for p in self.ptp_filter])\<close>, where
  \<open>fnmatchcase\<close> is the library's glob matcher, name first and pattern second.\<close>

definition ptp_match :: "(string \<Rightarrow> string \<Rightarrow> bool) \<Rightarrow> config \<Rightarrow> adjacency \<Rightarrow> bool" where
  "ptp_match fnmatchcase cfg adj =
     list_ex (fnmatchcase (case adj_local_ip adj of None \<Rightarrow> [] | Some ip \<Rightarrow> ip)) (ptp_filter cfg)"

text \<open>One round of the loop over \<open>lsp.get("links", [])\<close>.\<close>

definition process_link ::
  "(string \<Rightarrow> string \<Rightarrow> bool) \<Rightarrow> config \<Rightarrow> lsp \<Rightarrow> string \<Rightarrow> adjacency \<Rightarrow> state \<Rightarrow> state" where
  "process_link fnmatchcase cfg l isis_pid adj st =
     (if ptp_match fnmatchcase cfg adj then st
      else
        (let (a, st1) =
               alloc \<lparr>source = hostname l, target = peer_name adj,
                      label = Some (isis_pid @ '':'' @ str_replace ''Level-'' ''L'' (level l)),
                      src_label =
                        Some ((case adj_local_ip adj of Some ip \<Rightarrow> ip
                               | None \<Rightarrow> py_str (opt_val (adj_local_intf_id adj)))
                              @ '':'' @ metric adj),
                      trgt_label = None, description = None,
                      local_intf_id = Some (opt_val (adj_local_intf_id adj)),
                      peer_intf_id = Some (opt_val (adj_peer_intf_id adj)),
                      peer_ip = Some (opt_val (adj_peer_ip adj)),
                      local_ip = Some (opt_val (adj_local_ip adj))\<rparr> st
         in add_link cfg a [(hostname l, (isis_pid, adj))] st1))"

text \<open>One round of the loop over \<open>lsp.get("networks", [])\<close>.\<close>

definition process_network :: "config \<Rightarrow> lsp \<Rightarrow> connected \<Rightarrow> state \<Rightarrow> state" where
  "process_network cfg l net st =
     (let st1 = add_node cfg \<lparr>node_id = network net, node_label = Some (network net),
                              bottom_label = Some ''Subnet'', top_label = None,
                              node_description = None\<rparr> None st;
          (a, st2) =
             alloc \<lparr>source = hostname l, target = network net, label = Some (level l),
                    src_label = Some (''M:'' @ net_metric net),
                    trgt_label = None, description = None,
                    local_intf_id = None, peer_intf_id = None, peer_ip = None,
                    local_ip = None\<rparr> st1
      in add_link cfg a [] st2)"

definition process_lsp ::
  "(string \<Rightarrow> string \<Rightarrow> bool) \<Rightarrow> config \<Rightarrow> string \<Rightarrow> lsp \<Rightarrow> state \<Rightarrow> state" where
  "process_lsp fnmatchcase cfg isis_pid l st =
     (let st1 = add_node cfg \<lparr>node_id = hostname l, node_label = Some (hostname l),
                              bottom_label = Some ''Node'', top_label = Some (rid l),
                              node_description = None\<rparr> (Some l) st;
          st2 = fold (process_link fnmatchcase cfg l isis_pid) (links l) st1
      in if add_connected cfg then fold (process_network cfg l) (networks l) st2 else st2)"

definition form_base_graph_dict ::
  "(string \<Rightarrow> string \<Rightarrow> bool) \<Rightarrow> config \<Rightarrow> state \<Rightarrow> state" where
  "form_base_graph_dict fnmatchcase cfg st =
     fold (\<lambda>dev. fold (\<lambda>(isis_pid, lsps). fold (process_lsp fnmatchcase cfg isis_pid) lsps) dev)
       (parsed_data st) st"

subsection \<open>Link packer\<close>

text \<open>The four \<open>link.pop(key)\<close> calls: a missing key raises \<open>KeyError\<close>.\<close>

definition pop_keys :: "link \<Rightarrow> error + (pyval \<times> pyval \<times> pyval \<times> pyval \<times> link)" where
  "pop_keys l =
     (case local_intf_id l of None \<Rightarrow> Inl KeyError | Some lid \<Rightarrow>
     (case peer_intf_id l of None \<Rightarrow> Inl KeyError | Some pid \<Rightarrow>
     (case peer_ip l of None \<Rightarrow> Inl KeyError | Some pip \<Rightarrow>
     (case local_ip l of None \<Rightarrow> Inl KeyError | Some lip \<Rightarrow>
        Inr (lid, pid, pip, lip,
             l\<lparr>local_intf_id := None, peer_intf_id := None, peer_ip := None,
               local_ip := None\<rparr>)))))"

text \<open>
  \<open>for link_2 in links: if link_2[k1] == x and link_2[k2] == y: ... break\<close>: the address of
  the first link of the pool that passes, reading \<open>k1\<close> first and \<open>k2\<close> only when \<open>k1\<close> agreed.
\<close>

fun find_pair ::
  "(link \<Rightarrow> pyval option) \<Rightarrow> (link \<Rightarrow> pyval option) \<Rightarrow> pyval \<Rightarrow> pyval \<Rightarrow> link list \<Rightarrow> nat list
   \<Rightarrow> error + nat option" where
  "find_pair k1 k2 x y h [] = Inr None"
| "find_pair k1 k2 x y h (b # bs) =
     (case k1 (h ! b) of None \<Rightarrow> Inl KeyError
      | Some v \<Rightarrow>
          if v = x
          then (case k2 (h ! b) of None \<Rightarrow> Inl KeyError
                | Some w \<Rightarrow> if w = y then Inr (Some b) else find_pair k1 k2 x y h bs)
          else find_pair k1 k2 x y h bs)"

text \<open>The new label when the two labels differ.\<close>

definition merge_label :: "string \<Rightarrow> string \<Rightarrow> error + string" where
  "merge_label l1 l2 =
     (case split2 l1 of Inl e \<Rightarrow> Inl e | Inr (pid_1, level_1) \<Rightarrow>
     (case split2 l2 of Inl e \<Rightarrow> Inl e | Inr (pid_2, level_2) \<Rightarrow>
        Inr ((if pid_1 = pid_2 then pid_1 else pid_1 @ ''-'' @ pid_2) @ '':'' @ level_1)))"

text \<open>
  The body run for the pair found, \<open>link\<close> at address \<open>a\<close> and \<open>link_2\<close> at \<open>b\<close>: target label,
  \<open>_add_link\<close> with the two descriptions merged, then the label, written into the object
  that \<open>_add_link\<close> may just have stored.
\<close>

definition merge_pair :: "config \<Rightarrow> nat \<Rightarrow> nat \<Rightarrow> state \<Rightarrow> error + state" where
  "merge_pair cfg a b st =
     (case src_label (heap st ! b) of None \<Rightarrow> Inl KeyError | Some sl \<Rightarrow>
     (let st1 = st\<lparr>heap := (heap st)[a := (heap st ! a)\<lparr>trgt_label := Some sl\<rparr>]\<rparr> in
     (case description (heap st1 ! a) of None \<Rightarrow> Inl KeyError | Some d1 \<Rightarrow>
     (case description (heap st1 ! b) of None \<Rightarrow> Inl KeyError | Some d2 \<Rightarrow>
     (let st2 = add_link cfg a (dict_merge (json_loads d1) (json_loads d2)) st1 in
     (case label (heap st2 ! a) of None \<Rightarrow> Inl KeyError | Some l1 \<Rightarrow>
     (case label (heap st2 ! b) of None \<Rightarrow> Inl KeyError | Some l2 \<Rightarrow>
        if l1 \<noteq> l2
        then (case merge_label l1 l2 of Inl e \<Rightarrow> Inl e
              | Inr l' \<Rightarrow> Inr (st2\<lparr>heap := (heap st2)[a := (heap st2 ! a)\<lparr>label := Some l'\<rparr>]\<rparr>))
        else Inr st2)))))))"

text \<open>The search for a pair: interface ids when the candidate has both, else IP addresses
  when it has both, else none.\<close>

definition find_partner ::
  "pyval \<Rightarrow> pyval \<Rightarrow> pyval \<Rightarrow> pyval \<Rightarrow> link list \<Rightarrow> nat list \<Rightarrow> error + nat option" where
  "find_partner lid pid pip lip h pool =
     (if truthy lid \<and> truthy pid then find_pair peer_intf_id local_intf_id lid pid h pool
      else if truthy lip \<and> truthy pip then find_pair peer_ip local_ip lip pip h pool
      else Inr None)"

text \<open>\<open>while links:\<close> over the pool of one group; \<open>links.pop()\<close> takes the last one.\<close>

function pack_pool :: "config \<Rightarrow> nat list \<Rightarrow> state \<Rightarrow> error + state" where
  "pack_pool cfg pool st =
     (if pool = [] then Inr st
      else
        (let a = last pool; rest = butlast pool in
         case pop_keys (heap st ! a) of Inl e \<Rightarrow> Inl e
         | Inr (lid, pid, pip, lip, l') \<Rightarrow>
             (let st1 = st\<lparr>heap := (heap st)[a := l']\<rparr> in
              case find_partner lid pid pip lip (heap st1) rest of Inl e \<Rightarrow> Inl e
              | Inr None \<Rightarrow> pack_pool cfg rest (add_link cfg a [] st1)
              | Inr (Some b) \<Rightarrow>
                  (case merge_pair cfg a b st1 of Inl e \<Rightarrow> Inl e
                   | Inr st2 \<Rightarrow>
                       (case list_index (deref st2 rest) (heap st2 ! b) of
                          None \<Rightarrow> Inl ValueError
                        | Some j \<Rightarrow> pack_pool cfg (remove_at j rest) st2)))))"
  by pat_completeness auto
termination
  by (relation "measure (\<lambda>(cfg, pool, st). length pool)")
    (auto simp: remove_at_def min_def simp flip: length_greater_0_conv)

text \<open>The body of \<open>for hash in self.links_dict.keys()\<close>.\<close>

definition pack_group :: "config \<Rightarrow> hash_tuple \<Rightarrow> state \<Rightarrow> error + state" where
  "pack_group cfg h st =
     (case map_of (links_dict st) h of None \<Rightarrow> Inl KeyError
      | Some pool \<Rightarrow>
          if length pool \<le> 1 then Inr st
          else pack_pool cfg pool (st\<lparr>links_dict := AList.update h [] (links_dict st)\<rparr>))"

text \<open>
  The iteration over the keys. The iterator was made when the dictionary had \<open>n\<close> keys and
  raises \<open>RuntimeError\<close> whenever it is asked for the next key of a dictionary of another
  size, also after the last key.
\<close>

fun pack_keys :: "config \<Rightarrow> nat \<Rightarrow> hash_tuple list \<Rightarrow> state \<Rightarrow> error + state" where
  "pack_keys cfg n [] st = (if length (links_dict st) \<noteq> n then Inl RuntimeError else Inr st)"
| "pack_keys cfg n (h # hs) st =
     (if length (links_dict st) \<noteq> n then Inl RuntimeError
      else (case pack_group cfg h st of Inl e \<Rightarrow> Inl e | Inr st' \<Rightarrow> pack_keys cfg n hs st'))"

definition pack_links :: "config \<Rightarrow> state \<Rightarrow> error + state" where
  "pack_links cfg st = pack_keys cfg (length (links_dict st)) (map fst (links_dict st)) st"

subsection \<open>Enrichment lookup\<close>

text \<open>\<open>node.update(...)\<close> with the three keys a lookup record may override.\<close>

definition lookup_node :: "lookup_table \<Rightarrow> node \<Rightarrow> error + node" where
  "lookup_node tbl n =
     (case top_label n of None \<Rightarrow> Inl KeyError
      | Some node_ip \<Rightarrow>
          (case map_of tbl node_ip of None \<Rightarrow> Inr n
           | Some r \<Rightarrow>
               Inr (n\<lparr>node_label := (case map_of r ''label'' of None \<Rightarrow> node_label n | Some v \<Rightarrow> Some v),
                      bottom_label :=
                        (case map_of r ''bottom_label'' of None \<Rightarrow> bottom_label n | Some v \<Rightarrow> Some v),
                      top_label :=
                        (case map_of r ''top_label'' of None \<Rightarrow> top_label n | Some v \<Rightarrow> Some v)\<rparr>)))"

fun lookup_nodes :: "lookup_table \<Rightarrow> (string \<times> node) list \<Rightarrow> error + (string \<times> node) list" where
  "lookup_nodes tbl [] = Inr []"
| "lookup_nodes tbl ((k, n) # ns) =
     (case lookup_node tbl n of Inl e \<Rightarrow> Inl e
      | Inr n' \<Rightarrow> (case lookup_nodes tbl ns of Inl e \<Rightarrow> Inl e | Inr ns' \<Rightarrow> Inr ((k, n') # ns')))"

definition lookup_rid :: "config \<Rightarrow> state \<Rightarrow> error + state" where
  "lookup_rid cfg st =
     (case lookup_nodes (ip_lookup_data cfg) (nodes_dict st) of Inl e \<Rightarrow> Inl e
      | Inr ns \<Rightarrow> Inr (st\<lparr>nodes_dict := ns\<rparr>))"

text \<open>\<open>self.ip_lookup_data.get(ip, {}).get("interface")\<close> when it is true, that is a
  non-empty string.\<close>

definition lookup_interface :: "lookup_table \<Rightarrow> string \<Rightarrow> string option" where
  "lookup_interface tbl ip =
     (case map_of tbl ip of None \<Rightarrow> None
      | Some r \<Rightarrow> (case map_of r ''interface'' of None \<Rightarrow> None
                   | Some i \<Rightarrow> if i = [] then None else Some i))"

text \<open>
  The two blocks of the loop body for one link. The first component of a block's result
  says whether the block ran into its \<open>continue\<close>.
\<close>

definition lookup_src :: "lookup_table \<Rightarrow> link \<Rightarrow> error + (bool \<times> link)" where
  "lookup_src tbl l =
     (case src_label l of None \<Rightarrow> Inr (False, l)
      | Some s \<Rightarrow>
          if s = [] then Inr (False, l)
          else (case split2 s of Inl e \<Rightarrow> Inl e
                | Inr (link_src_ip, link_src_metric) \<Rightarrow>
                    if count_list link_src_ip (CHR ''.'') \<noteq> 3 then Inr (True, l)
                    else (case lookup_interface tbl link_src_ip of None \<Rightarrow> Inr (False, l)
                          | Some i \<Rightarrow>
                              Inr (False,
                                   l\<lparr>src_label :=
                                       Some (i @ '':'' @ link_src_ip @ '':'' @ link_src_metric)\<rparr>))))"

definition lookup_trgt :: "lookup_table \<Rightarrow> link \<Rightarrow> error + (bool \<times> link)" where
  "lookup_trgt tbl l =
     (case trgt_label l of None \<Rightarrow> Inr (False, l)
      | Some s \<Rightarrow>
          if s = [] then Inr (False, l)
          else (case split2 s of Inl e \<Rightarrow> Inl e
                | Inr (link_trgt_ip, link_trgt_metric) \<Rightarrow>
                    if count_list link_trgt_ip (CHR ''.'') \<noteq> 3 then Inr (True, l)
                    else (case lookup_interface tbl link_trgt_ip of None \<Rightarrow> Inr (False, l)
                          | Some i \<Rightarrow>
                              Inr (False,
                                   l\<lparr>trgt_label :=
                                       Some (i @ '':'' @ link_trgt_ip @ '':'' @ link_trgt_metric)\<rparr>))))"

definition lookup_link :: "lookup_table \<Rightarrow> link \<Rightarrow> error + link" where
  "lookup_link tbl l =
     (case lookup_src tbl l of Inl e \<Rightarrow> Inl e
      | Inr (True, l1) \<Rightarrow> Inr l1
      | Inr (False, l1) \<Rightarrow> (case lookup_trgt tbl l1 of Inl e \<Rightarrow> Inl e | Inr (_, l2) \<Rightarrow> Inr l2))"

fun lookup_addrs :: "lookup_table \<Rightarrow> nat list \<Rightarrow> link list \<Rightarrow> error + link list" where
  "lookup_addrs tbl [] h = Inr h"
| "lookup_addrs tbl (a # as) h =
     (case lookup_link tbl (h ! a) of Inl e \<Rightarrow> Inl e | Inr l \<Rightarrow> lookup_addrs tbl as (h[a := l]))"

definition lookup_ip_interfaces :: "config \<Rightarrow> state \<Rightarrow> error + state" where
  "lookup_ip_interfaces cfg st =
     (case lookup_addrs (ip_lookup_data cfg) (concat (map snd (links_dict st))) (heap st) of
        Inl e \<Rightarrow> Inl e
      | Inr h \<Rightarrow> Inr (st\<lparr>heap := h\<rparr>))"

subsection \<open>Drawing sink and the whole run\<close>

definition update_drawing :: "state \<Rightarrow> state" where
  "update_drawing st =
     (let st1 = st\<lparr>graph_nodes := map snd (nodes_dict st),
                   graph_links := graph_links st @ concat (map snd (links_dict st))\<rparr>
      in st1\<lparr>drawing := drawing st1 @ [(graph_nodes st1, deref st1 (graph_links st1))]\<rparr>)"

text \<open>\<open>work(data)\<close>. \<open>parse\<close> stands for \<open>_parse\<close>, which hands the text to the template
  parser and may raise.\<close>

definition work ::
  "('d \<Rightarrow> error + device list) \<Rightarrow> (string \<Rightarrow> string \<Rightarrow> bool) \<Rightarrow> config \<Rightarrow> 'd \<Rightarrow> state
   \<Rightarrow> error + state" where
  "work parse fnmatchcase cfg data st =
     (case parse data of Inl e \<Rightarrow> Inl e
      | Inr parsed \<Rightarrow>
          (let st1 = form_base_graph_dict fnmatchcase cfg (st\<lparr>parsed_data := parsed\<rparr>) in
           case pack_links cfg st1 of Inl e \<Rightarrow> Inl e
           | Inr st2 \<Rightarrow>
               (case (if ip_lookup_data cfg \<noteq> []
                      then (case lookup_rid cfg st2 of Inl e \<Rightarrow> Inl e
                            | Inr st3 \<Rightarrow> lookup_ip_interfaces cfg st3)
                      else Inr st2) of
                  Inl e \<Rightarrow> Inl e
                | Inr st4 \<Rightarrow> Inr (update_drawing st4))))"

subsection \<open>Loading the lookup table\<close>

text \<open>
  A row as \<open>csv.DictReader\<close> yields it: every name of the header, once, with the cell of
  the line, or with \<open>None\<close> where the line is shorter than the header, and the cells beyond
  the header, when there are any, as a list under the key \<open>None\<close>.
\<close>

record csv_row =
  row_fields :: "(string \<times> string option) list"
  row_rest :: "string list option"

type_synonym csv_table = "(pyval \<times> csv_row) list"

text \<open>
  The attribute \<open>ip_lookup_data\<close>: the dictionary or the string given to the constructor,
  or the table read from a file, whose keys and cells may be \<open>None\<close>. \<open>open_file\<close> and
  \<open>dict_reader\<close> stand for \<open>open\<close> and \<open>csv.DictReader\<close>. The reader is read row by row as
  the comprehension asks for the next one: it is the list of what each request gives, a
  row or the exception raised, and nothing after an exception is read.
\<close>

datatype lookup_source = Table lookup_table | Path string | CsvTable csv_table



subsection \<open>Example inputs\<close>

definition ex_cfg :: config where
  "ex_cfg = \<lparr>add_connected = False, ptp_filter = [], add_data = True, ip_lookup_data = []\<rparr>"

text \<open>A raw link as the graph builder stores it for an adjacency known by interface ids.\<close>

definition ex_link :: "string \<Rightarrow> string \<Rightarrow> string \<Rightarrow> string \<Rightarrow> string \<Rightarrow> link" where
  "ex_link s t pid lid rid' =
     \<lparr>source = s, target = t, label = Some (pid @ '':L1''), src_label = Some (lid @ '':10''),
      trgt_label = None,
      description = Some [(s, (pid, \<lparr>peer_name = t, metric = ''10'', adj_local_ip = None,
                                     adj_peer_ip = None, adj_local_intf_id = Some lid,
                                     adj_peer_intf_id = Some rid', adj_other = []\<rparr>))],
      local_intf_id = Some (PStr lid), peer_intf_id = Some (PStr rid'),
      peer_ip = Some PNone, local_ip = Some PNone\<rparr>"

text \<open>Two equal link objects, the first of them stored in its group.\<close>

definition ex_state_dup :: state where
  "ex_state_dup =
     init_state\<lparr>heap := [ex_link ''R1'' ''R2'' ''100'' ''Gi1'' ''Gi2'',
                         ex_link ''R1'' ''R2'' ''100'' ''Gi1'' ''Gi2''],
                links_dict := [([''100:L1'', ''R1'', ''R2''], [0])]\<rparr>"

definition ex_table :: lookup_table where
  "ex_table = [(''10.0.0.2'', [(''hostname'', ''R2''), (''interface'', ''Gi2'')])]"

text \<open>A packed link whose source side is known by interface id and whose target side by
  IP address.\<close>

definition ex_mixed_link :: link where
  "ex_mixed_link =
     \<lparr>source = ''R1'', target = ''R2'', label = Some ''100:L2'', src_label = Some ''Gi1:10'',
      trgt_label = Some ''10.0.0.2:10'', description = None,
      local_intf_id = None, peer_intf_id = None, peer_ip = None, local_ip = None\<rparr>"




text \<open>The candidate at address 1 and its partner at address 0, with different process ids
  and with the same.\<close>

definition ex_state_pids :: state where
  "ex_state_pids =
     init_state\<lparr>heap := [ex_link ''R2'' ''R1'' ''200'' ''Gi2'' ''Gi1'',
                         ex_link ''R1'' ''R2'' ''100'' ''Gi1'' ''Gi2''],
                links_dict := [([''100:L1'', ''R1'', ''R2''], [])]\<rparr>"

definition ex_state_same :: state where
  "ex_state_same =
     init_state\<lparr>heap := [ex_link ''R2'' ''R1'' ''100'' ''Gi2'' ''Gi1'',
                         ex_link ''R1'' ''R2'' ''100'' ''Gi1'' ''Gi2''],
                links_dict := [([''100:L1'', ''R1'', ''R2''], [])]\<rparr>"

text \<open>Parsed records: an adjacency known by interface ids, an LSP, a parser that hands its
  input on, and a matcher that knows the pattern \<open>*\<close> and patterns without wildcards.\<close>

definition ex_adj :: "string \<Rightarrow> string \<Rightarrow> string \<Rightarrow> adjacency" where
  "ex_adj peer lid rid' =
     \<lparr>peer_name = peer, metric = ''10'', adj_local_ip = None, adj_peer_ip = None,
      adj_local_intf_id = Some lid, adj_peer_intf_id = Some rid', adj_other = []\<rparr>"

definition ex_lsp :: "string \<Rightarrow> string \<Rightarrow> adjacency list \<Rightarrow> connected list \<Rightarrow> lsp" where
  "ex_lsp h r adjs nets =
     \<lparr>hostname = h, rid = r, level = ''Level-2'', links = adjs, networks = nets\<rparr>"

definition ex_parse :: "device list \<Rightarrow> error + device list" where
  "ex_parse d = Inr d"

definition ex_fnmatchcase :: "string \<Rightarrow> string \<Rightarrow> bool" where
  "ex_fnmatchcase name pat = (pat = ''*'' \<or> pat = name)"

text \<open>R1 reports two adjacencies to R2, R2 reports one back: three links in one group, two
  of which pair by interface id.\<close>

definition ex_three :: "device list" where
  "ex_three =
     [[(''100'', [ex_lsp ''R1'' ''1.1.1.1''
                    [ex_adj ''R2'' ''Gi1'' ''Gi2'', ex_adj ''R2'' ''Gi3'' ''Gi4''] []])],
      [(''100'', [ex_lsp ''R2'' ''2.2.2.2'' [ex_adj ''R1'' ''Gi2'' ''Gi1''] []])]]"

text \<open>R1 alone reports its adjacency to R2; R2 alone reports it back.\<close>

definition ex_one :: "device list" where
  "ex_one = [[(''100'', [ex_lsp ''R1'' ''1.1.1.1'' [ex_adj ''R2'' ''Gi1'' ''Gi2''] []])]]"

definition ex_back :: "device list" where
  "ex_back = [[(''100'', [ex_lsp ''R2'' ''2.2.2.2'' [ex_adj ''R1'' ''Gi2'' ''Gi1''] []])]]"

text \<open>A node already stored, and an LSP that sights its id again, as a router with
  another router id and as a connected network.\<close>

definition ex_cfg_conn :: config where
  "ex_cfg_conn = ex_cfg\<lparr>add_connected := True\<rparr>"

definition ex_node_r1 :: node where
  "ex_node_r1 = \<lparr>node_id = ''R1'', node_label = Some ''R1'', bottom_label = Some ''Node'',
                  top_label = Some ''1.1.1.1'', node_description = None\<rparr>"

definition ex_state_r1 :: state where
  "ex_state_r1 =
     init_state\<lparr>nodes_dict := [(''R1'', ex_node_r1)],
                parsed_data :=
                  [[(''100'', [ex_lsp ''R1'' ''9.9.9.9'' []
                                 [\<lparr>network = ''R1'', net_metric = ''10''\<rparr>]])]]\<rparr>"

text \<open>A filter and an adjacency whose local IP it matches.\<close>

definition ex_cfg_filter :: config where
  "ex_cfg_filter = ex_cfg\<lparr>ptp_filter := [''10.0.0.1'']\<rparr>"

definition ex_adj_ip :: adjacency where
  "ex_adj_ip =
     \<lparr>peer_name = ''R2'', metric = ''10'', adj_local_ip = Some ''10.0.0.1'',
      adj_peer_ip = Some ''10.0.0.2'', adj_local_intf_id = None, adj_peer_intf_id = None,
      adj_other = []\<rparr>"

subsection \<open>Vocabulary of the properties\<close>

text \<open>The correlation keys of the links of every payload the drawing was given.\<close>

definition payload_keys ::
  "error + state \<Rightarrow> (pyval option \<times> pyval option \<times> pyval option \<times> pyval option) list list" where
  "payload_keys r =
     (case r of Inl e \<Rightarrow> []
      | Inr st \<Rightarrow>
          map (\<lambda>(ns, ls). map (\<lambda>l. (local_intf_id l, peer_intf_id l, local_ip l, peer_ip l)) ls)
            (drawing st))"

text \<open>The sizes of the link groups.\<close>

definition group_sizes :: "error + state \<Rightarrow> error + nat list" where
  "group_sizes r = (case r of Inl e \<Rightarrow> Inl e | Inr st \<Rightarrow> Inr (map (\<lambda>(k, g). length g) (links_dict st)))"

text \<open>The node ids sighted by the graph builder: the hostname of every LSP and, with
  \<open>add_connected\<close>, its connected networks.\<close>

definition lsp_node_ids :: "config \<Rightarrow> lsp \<Rightarrow> string list" where
  "lsp_node_ids cfg l = hostname l # (if add_connected cfg then map network (networks l) else [])"

definition node_ids :: "config \<Rightarrow> device list \<Rightarrow> string list" where
  "node_ids cfg parsed =
     concat (map (\<lambda>dev. concat (map (\<lambda>(isis_pid, lsps). concat (map (lsp_node_ids cfg) lsps)) dev))
               parsed)"

text \<open>\<open>keeps n n'\<close>: \<open>n'\<close> has the id of \<open>n\<close> and every attribute that \<open>n\<close> has, unchanged.\<close>

definition keeps :: "node \<Rightarrow> node \<Rightarrow> bool" where
  "keeps n n' \<longleftrightarrow>
     node_id n' = node_id n \<and>
     (node_label n \<noteq> None \<longrightarrow> node_label n' = node_label n) \<and>
     (bottom_label n \<noteq> None \<longrightarrow> bottom_label n' = bottom_label n) \<and>
     (top_label n \<noteq> None \<longrightarrow> top_label n' = top_label n) \<and>
     (node_description n \<noteq> None \<longrightarrow> node_description n' = node_description n)"

text \<open>Every node is stored under its own id.\<close>

definition keyed :: "state \<Rightarrow> bool" where
  "keyed st \<longleftrightarrow> list_all (\<lambda>(k, n). node_id n = k) (nodes_dict st)"

definition nodes_keep :: "state \<Rightarrow> state \<Rightarrow> bool" where
  "nodes_keep st st' \<longleftrightarrow>
     (\<forall>k n. map_of (nodes_dict st) k = Some n \<longrightarrow>
        (\<exists>n'. map_of (nodes_dict st') k = Some n' \<and> keeps n n'))"

definition nodes_grow :: "string list \<Rightarrow> state \<Rightarrow> state \<Rightarrow> bool" where
  "nodes_grow ids st st' \<longleftrightarrow>
     (distinct (map fst (nodes_dict st)) \<longrightarrow> distinct (map fst (nodes_dict st'))) \<and>
     (keyed st \<longrightarrow> keyed st') \<and>
     set (map fst (nodes_dict st')) = set (map fst (nodes_dict st)) \<union> set ids \<and>
     nodes_keep st st'"

text \<open>A link without the four correlation keys.\<close>

definition stripped :: "link \<Rightarrow> bool" where
  "stripped l \<longleftrightarrow>
     local_intf_id l = None \<and> peer_intf_id l = None \<and> peer_ip l = None \<and> local_ip l = None"

text \<open>The keys of \<open>links_dict\<close> are pairwise different and every address in it is allocated.\<close>

definition wf_links :: "state \<Rightarrow> bool" where
  "wf_links st \<longleftrightarrow>
     distinct (map fst (links_dict st)) \<and>
     list_all (\<lambda>(k, g). list_all (\<lambda>a. a < length (heap st)) g) (links_dict st)"

text \<open>\<open>grows st st'\<close>: the store has the size it had, a link without the correlation keys is
  still without them, and every group has its entries and then new ones, all without the
  keys.\<close>

definition grows :: "state \<Rightarrow> state \<Rightarrow> bool" where
  "grows st st' \<longleftrightarrow>
     length (heap st') = length (heap st) \<and> wf_links st' \<and>
     (\<forall>x. stripped (heap st ! x) \<longrightarrow> stripped (heap st' ! x)) \<and>
     (\<forall>h. \<exists>new. group_of st' h = group_of st h @ new \<and>
                 (\<forall>a\<in>set new. stripped (heap st' ! a)))"

text \<open>A link as the graph builder stores it for an adjacency when \<open>add_data\<close> is on: the
  four correlation keys, the labels and the description are there, a target label is not.\<close>

definition raw_link :: "link \<Rightarrow> bool" where
  "raw_link l \<longleftrightarrow>
     local_intf_id l \<noteq> None \<and> peer_intf_id l \<noteq> None \<and> peer_ip l \<noteq> None \<and>
     local_ip l \<noteq> None \<and> src_label l \<noteq> None \<and> label l \<noteq> None \<and>
     description l \<noteq> None \<and> trgt_label l = None"

text \<open>The link once the four \<open>link.pop\<close> calls have run.\<close>

definition strip_keys :: "link \<Rightarrow> link" where
  "strip_keys l =
     l\<lparr>local_intf_id := None, peer_intf_id := None, peer_ip := None, local_ip := None\<rparr>"

text \<open>The candidate \<open>c\<close> has both interface ids and \<open>p\<close> mirrors them.\<close>

definition intf_pair :: "link \<Rightarrow> link \<Rightarrow> bool" where
  "intf_pair c p \<longleftrightarrow>
     (case (local_intf_id c, peer_intf_id c) of
        (Some x, Some y) \<Rightarrow>
          truthy x \<and> truthy y \<and> peer_intf_id p = Some x \<and> local_intf_id p = Some y
      | _ \<Rightarrow> False)"

text \<open>The four correlation keys are there.\<close>

definition keys_present :: "link \<Rightarrow> bool" where
  "keys_present l \<longleftrightarrow>
     local_intf_id l \<noteq> None \<and> peer_intf_id l \<noteq> None \<and> peer_ip l \<noteq> None \<and> local_ip l \<noteq> None"

text \<open>The payload list and the drawing are as they were.\<close>

definition sink_same :: "state \<Rightarrow> state \<Rightarrow> bool" where
  "sink_same st st' \<longleftrightarrow> graph_links st' = graph_links st \<and> drawing st' = drawing st"

text \<open>The parser output without the adjacencies that match a pattern of \<open>ptp_filter\<close>.\<close>

definition strip_lsp :: "(string \<Rightarrow> string \<Rightarrow> bool) \<Rightarrow> config \<Rightarrow> lsp \<Rightarrow> lsp" where
  "strip_lsp fnm cfg l = l\<lparr>links := filter (\<lambda>adj. \<not> ptp_match fnm cfg adj) (links l)\<rparr>"

definition strip_parsed :: "(string \<Rightarrow> string \<Rightarrow> bool) \<Rightarrow> config \<Rightarrow> device list \<Rightarrow> device list" where
  "strip_parsed fnm cfg parsed =
     map (map (\<lambda>(isis_pid, lsps). (isis_pid, map (strip_lsp fnm cfg) lsps))) parsed"

text \<open>Two states hold the same link objects under the same hash tuples.\<close>

definition same_links :: "state \<Rightarrow> state \<Rightarrow> bool" where
  "same_links s t \<longleftrightarrow> heap s = heap t \<and> links_dict s = links_dict t"

section \<open>Properties\<close>

declare pack_pool.simps [simp del]

lemma sort3_swap: "sort [a, b, c] = sort [b, a, (c::'a::linorder)]"
proof -
  have "sort [a, b, c] = insort a (insort b (sort [c]))"
    by (simp only: sort_key_simps)
  also have "\<dots> = insort b (insort a (sort [c]))"
    by (rule insort_left_comm)
  also have "\<dots> = sort [b, a, c]"
    by (simp only: sort_key_simps)
  finally show ?thesis .
qed

text \<open>
  C3. The group key is symmetric in direction: a link from A to B and a link from B to A
  with the same label (or both without a label, which counts as the empty string) get the
  same key, whatever the other keys of the two dictionaries hold.
\<close>

theorem hash_tuple_symmetric:
  "source l1 = a \<and> target l1 = b \<and> source l2 = b \<and> target l2 = a \<and> label l1 = label l2
   \<longrightarrow> make_hash_tuple l1 = make_hash_tuple l2"
  by (auto simp: make_hash_tuple_def sort3_swap)

theorem hash_tuple_symmetric_witness:
  "make_hash_tuple (ex_link ''R1'' ''R2'' ''100'' ''Gi1'' ''Gi2'')
   = make_hash_tuple (ex_link ''R2'' ''R1'' ''100'' ''Gi2'' ''Gi1'')"
  using hash_tuple_symmetric [of "ex_link ''R1'' ''R2'' ''100'' ''Gi1'' ''Gi2''" "''R1''" "''R2''"
      "ex_link ''R2'' ''R1'' ''100'' ''Gi2'' ''Gi1''"]
  by (simp add: ex_link_def)

text \<open>
  C9. Re-insertion is idempotent: when the link object handed to \<open>_add_link\<close> is equal to
  a link already in the list of its group, the call changes nothing at all, whatever
  \<open>link_data\<close> is: the list of the group keeps its entries and its length, and the object
  gets no description.
\<close>

theorem add_link_idempotent:
  assumes "map_of (links_dict st) (make_hash_tuple (heap st ! a)) = Some g"
    and "heap st ! a \<in> set (deref st g)"
  shows "add_link cfg a ld st = st"
  using assms by (simp add: add_link_def group_of_def Let_def update_triv)

theorem add_link_idempotent_witness:
  "add_link ex_cfg 1
     [(''R1'', (''100'', \<lparr>peer_name = ''R2'', metric = ''10'', adj_local_ip = None,
                          adj_peer_ip = None, adj_local_intf_id = Some ''Gi1'',
                          adj_peer_intf_id = Some ''Gi2'', adj_other = []\<rparr>))]
     ex_state_dup = ex_state_dup"
  by (rule add_link_idempotent [where g = "[0]"])
     (simp_all add: ex_state_dup_def init_state_def ex_link_def make_hash_tuple_def deref_def)

text \<open>
  C6. The interface pass does not treat the two labels independently. For a link whose
  source label is an interface id and whose target label is an IP address of the lookup
  table, the loop body leaves the link as it is: the \<open>continue\<close> of the source block skips
  the target block, which on its own rewrites the target label.
\<close>

theorem lookup_link_skips_target:
  "lookup_link ex_table ex_mixed_link = Inr ex_mixed_link \<and>
   lookup_trgt ex_table ex_mixed_link =
     Inr (False, ex_mixed_link\<lparr>trgt_label := Some ''Gi2:10.0.0.2:10''\<rparr>)"
  by (simp add: lookup_link_def lookup_src_def lookup_trgt_def lookup_interface_def split2_def
      ex_table_def ex_mixed_link_def)






lemma split_on_not_Nil: "split_on c s \<noteq> []"
  by (induction s) (auto split: list.splits)

lemma split_on_single: "split_on c s = [p] \<Longrightarrow> s = p \<and> c \<notin> set p"
  by (induction s arbitrary: p) (auto simp: split_on_not_Nil split: if_splits list.splits)

lemma split_on_two: "split_on c s = [p, q] \<Longrightarrow> s = p @ c # q \<and> c \<notin> set p \<and> c \<notin> set q"
proof (induction s arbitrary: p)
  case Nil
  then show ?case by simp
next
  case (Cons x xs)
  show ?case
  proof (cases "x = c")
    case True
    with Cons.prems have "p = []" and "split_on c xs = [q]" by simp_all
    with True split_on_single [of c xs q] show ?thesis by simp
  next
    case False
    with Cons.prems obtain p' where "split_on c xs = [p', q]" and "p = x # p'"
      by (auto split: list.splits)
    with False Cons.IH [of p'] show ?thesis by simp
  qed
qed

lemma split2_Inr:
  "split2 s = Inr (p, q) \<Longrightarrow> s = p @ '':'' @ q \<and> CHR '':'' \<notin> set p \<and> CHR '':'' \<notin> set q"
  using split_on_two [of "CHR '':''" s p q]
  by (auto simp: split2_def split: list.splits)

lemma add_link_heap:
  "\<exists>d. heap (add_link cfg a ld st) = (heap st)[a := (heap st ! a)\<lparr>description := d\<rparr>]"
proof (cases "heap st ! a \<in> set (deref st (group_of st (make_hash_tuple (heap st ! a))))")
  case True
  then have "heap (add_link cfg a ld st)
             = (heap st)[a := (heap st ! a)\<lparr>description := description (heap st ! a)\<rparr>]"
    by (simp add: add_link_def Let_def)
  then show ?thesis ..
next
  case False
  then have "heap (add_link cfg a ld st)
             = (heap st)[a := (heap st ! a)\<lparr>description :=
                  (if ld \<noteq> [] \<and> add_data cfg then Some (json_dumps ld)
                   else description (heap st ! a))\<rparr>]"
    by (simp add: add_link_def Let_def)
  then show ?thesis ..
qed

lemma add_link_label: "label (heap (add_link cfg a ld st) ! x) = label (heap st ! x)"
proof -
  obtain d where "heap (add_link cfg a ld st) = (heap st)[a := (heap st ! a)\<lparr>description := d\<rparr>]"
    using add_link_heap by blast
  then show ?thesis
    by (cases "a < length (heap st)") (simp_all add: nth_list_update list_update_beyond)
qed

lemma add_link_length: "length (heap (add_link cfg a ld st)) = length (heap st)"
  using add_link_heap [of cfg a ld st] by auto

text \<open>
  C1. The label of a merged link. When the body run for a pair found returns, for the
  candidate at \<open>a\<close> with label \<open>l1\<close> and the partner at \<open>b\<close> with label \<open>l2\<close>: equal labels
  leave the candidate's label as it is; different labels are both of the form
  \<open>pid:level\<close> with no further colon, and the candidate's label becomes \<open>pid1:level1\<close> when
  the process ids agree and \<open>pid1-pid2:level1\<close> when they differ.
\<close>

theorem merge_pair_label:
  assumes "merge_pair cfg a b st = Inr st'" and "a < length (heap st)"
    and "label (heap st ! a) = Some l1" and "label (heap st ! b) = Some l2"
  shows "(l1 = l2 \<longrightarrow> label (heap st' ! a) = Some l1) \<and>
         (l1 \<noteq> l2 \<longrightarrow>
            (\<exists>pid1 lv1 pid2 lv2.
                split2 l1 = Inr (pid1, lv1) \<and> split2 l2 = Inr (pid2, lv2) \<and>
                l1 = pid1 @ '':'' @ lv1 \<and> l2 = pid2 @ '':'' @ lv2 \<and>
                CHR '':'' \<notin> set (pid1 @ lv1 @ pid2 @ lv2) \<and>
                label (heap st' ! a) =
                  Some ((if pid1 = pid2 then pid1 else pid1 @ ''-'' @ pid2) @ '':'' @ lv1)))"
proof -
  from assms(1) obtain sl where sl: "src_label (heap st ! b) = Some sl"
    by (auto simp: merge_pair_def split: option.splits)
  define st1 where "st1 = st\<lparr>heap := (heap st)[a := (heap st ! a)\<lparr>trgt_label := Some sl\<rparr>]\<rparr>"
  from assms(1) sl obtain d1 d2 where
    d: "description (heap st1 ! a) = Some d1" "description (heap st1 ! b) = Some d2"
    by (auto simp: merge_pair_def st1_def Let_def split: option.splits)
  define st2 where "st2 = add_link cfg a (dict_merge (json_loads d1) (json_loads d2)) st1"
  have la: "label (heap st2 ! a) = Some l1"
    using assms(2,3) by (simp add: st2_def add_link_label st1_def)
  have lb: "label (heap st2 ! b) = Some l2"
    using assms(2,3,4) by (cases "b = a") (simp_all add: st2_def add_link_label st1_def)
  have len: "a < length (heap st2)"
    using assms(2) by (simp add: st2_def add_link_length st1_def)
  have res: "(if l1 \<noteq> l2
        then (case merge_label l1 l2 of Inl e \<Rightarrow> Inl e
              | Inr l' \<Rightarrow> Inr (st2\<lparr>heap := (heap st2)[a := (heap st2 ! a)\<lparr>label := Some l'\<rparr>]\<rparr>))
        else Inr st2) = Inr st'"
    using assms(1) sl d la lb
    by (simp add: merge_pair_def Let_def flip: st1_def st2_def)
  show ?thesis
  proof (cases "l1 = l2")
    case True
    with res la show ?thesis by simp
  next
    case False
    with res obtain l' where ml: "merge_label l1 l2 = Inr l'"
      and st': "st' = st2\<lparr>heap := (heap st2)[a := (heap st2 ! a)\<lparr>label := Some l'\<rparr>]\<rparr>"
      by (auto split: sum.splits)
    from ml obtain pid1 lv1 pid2 lv2 where
      s1: "split2 l1 = Inr (pid1, lv1)" and s2: "split2 l2 = Inr (pid2, lv2)"
      and l': "l' = (if pid1 = pid2 then pid1 else pid1 @ ''-'' @ pid2) @ '':'' @ lv1"
      by (auto simp: merge_label_def split: sum.splits)
    from st' len have "label (heap st' ! a) = Some l'" by simp
    with False l' s1 s2 split2_Inr [OF s1] split2_Inr [OF s2] show ?thesis
      by auto
  qed
qed

theorem merge_pair_label_witness:
  "(\<exists>st'. merge_pair ex_cfg 1 0 ex_state_pids = Inr st' \<and>
          label (heap st' ! 1) = Some ''100-200:L1'') \<and>
   (\<exists>st'. merge_pair ex_cfg 1 0 ex_state_same = Inr st' \<and>
          label (heap st' ! 1) = Some ''100:L1'')"
proof -
  have "\<not> isl (merge_pair ex_cfg 1 0 ex_state_pids)" by code_simp
  then obtain s where s: "merge_pair ex_cfg 1 0 ex_state_pids = Inr s"
    by (cases "merge_pair ex_cfg 1 0 ex_state_pids") auto
  have "\<not> isl (merge_pair ex_cfg 1 0 ex_state_same)" by code_simp
  then obtain t where t: "merge_pair ex_cfg 1 0 ex_state_same = Inr t"
    by (cases "merge_pair ex_cfg 1 0 ex_state_same") auto
  have ls: "1 < length (heap ex_state_pids)" "label (heap ex_state_pids ! 1) = Some ''100:L1''"
    "label (heap ex_state_pids ! 0) = Some ''200:L1''"
    by (simp_all add: ex_state_pids_def ex_link_def)
  have lt: "1 < length (heap ex_state_same)" "label (heap ex_state_same ! 1) = Some ''100:L1''"
    "label (heap ex_state_same ! 0) = Some ''100:L1''"
    by (simp_all add: ex_state_same_def ex_link_def)
  have sp: "split2 ''100:L1'' = Inr (''100'', ''L1'')" "split2 ''200:L1'' = Inr (''200'', ''L1'')"
    by (simp_all add: split2_def)
  from merge_pair_label [OF s ls] sp have "label (heap s ! 1) = Some ''100-200:L1''"
    by auto
  moreover from merge_pair_label [OF t lt] have "label (heap t ! 1) = Some ''100:L1''"
    by simp
  ultimately show ?thesis using s t by simp
qed

lemma keeps_refl: "keeps n n"
  by (simp add: keeps_def)

lemma keeps_trans: "keeps a b \<Longrightarrow> keeps b c \<Longrightarrow> keeps a c"
  by (auto simp: keeps_def)

lemma nodes_grow_same: "nodes_dict st' = nodes_dict st \<Longrightarrow> nodes_grow [] st st'"
  by (simp add: nodes_grow_def nodes_keep_def keeps_refl keyed_def)

lemma nodes_keep_trans: "nodes_keep a b \<Longrightarrow> nodes_keep b c \<Longrightarrow> nodes_keep a c"
  unfolding nodes_keep_def by (meson keeps_trans)

lemma nodes_grow_trans:
  "nodes_grow xs a b \<Longrightarrow> nodes_grow ys b c \<Longrightarrow> nodes_grow (xs @ ys) a c"
  unfolding nodes_grow_def using nodes_keep_trans by auto

lemma set_update_subset: "set (AList.update k v al) \<subseteq> insert (k, v) (set al)"
  by (induction al) auto

lemma keyed_update:
  assumes "list_all (\<lambda>(k, n). node_id n = k) al" and "node_id v = k"
  shows "list_all (\<lambda>(k, n). node_id n = k) (AList.update k v al)"
  using assms set_update_subset [of k v al] by (auto simp: list_all_iff)

lemma keyed_lookup:
  "list_all (\<lambda>(k, n). node_id n = k) al \<Longrightarrow> map_of al k = Some s \<Longrightarrow> node_id s = k"
  by (auto simp: list_all_iff dest: map_of_SomeD)

lemma nodes_grow_add_node: "nodes_grow [node_id n] st (add_node cfg n nd st)"
proof (cases "map_of (nodes_dict st) (node_id n)")
  case None
  then show ?thesis
    by (auto simp: nodes_grow_def nodes_keep_def add_node_def distinct_update dom_update
        update_conv' keeps_refl keyed_def intro!: keyed_update)
next
  case (Some s)
  let ?s2 = "if node_description (fill_absent s n) = None \<and> nd \<noteq> None \<and> add_data cfg
             then (fill_absent s n)\<lparr>node_description := nd\<rparr> else fill_absent s n"
  have k: "keeps s ?s2"
    by (auto simp: keeps_def fill_absent_def split: option.splits)
  have st': "nodes_dict (add_node cfg n nd st) = AList.update (node_id n) ?s2 (nodes_dict st)"
    using Some by (simp add: add_node_def Let_def)
  have "keyed (add_node cfg n nd st)" if "keyed st"
  proof -
    from that Some have "node_id s = node_id n"
      by (auto simp: keyed_def dest: keyed_lookup)
    with k have "node_id ?s2 = node_id n" by (simp add: keeps_def)
    with that show ?thesis
      unfolding keyed_def st' by (intro keyed_update) simp_all
  qed
  with Some k show ?thesis
    by (auto simp: nodes_grow_def nodes_keep_def st' distinct_update dom_update
        update_conv' keeps_refl)
qed

lemma nodes_dict_add_link [simp]: "nodes_dict (add_link cfg a ld st) = nodes_dict st"
  by (simp add: add_link_def Let_def)

lemma nodes_dict_process_link [simp]:
  "nodes_dict (process_link fnm cfg l pid adj st) = nodes_dict st"
  by (simp add: process_link_def alloc_def)

lemma nodes_dict_fold_process_link [simp]:
  "nodes_dict (fold (process_link fnm cfg l pid) adjs st) = nodes_dict st"
  by (induction adjs arbitrary: st) simp_all

lemma nodes_grow_cong:
  "nodes_grow ids st a \<Longrightarrow> nodes_dict b = nodes_dict a \<Longrightarrow> nodes_grow ids st b"
  by (simp add: nodes_grow_def nodes_keep_def keyed_def)

lemma nodes_grow_process_network:
  "nodes_grow [network net] st (process_network cfg l net st)"
proof -
  let ?n = "\<lparr>node_id = network net, node_label = Some (network net),
             bottom_label = Some ''Subnet'', top_label = None, node_description = None\<rparr>"
  have "nodes_dict (process_network cfg l net st) = nodes_dict (add_node cfg ?n None st)"
    by (simp add: process_network_def alloc_def Let_def)
  moreover have "nodes_grow [node_id ?n] st (add_node cfg ?n None st)"
    by (rule nodes_grow_add_node)
  ultimately show ?thesis
    using nodes_grow_cong by fastforce
qed

lemma nodes_grow_fold_network:
  "nodes_grow (map network nets) st (fold (process_network cfg l) nets st)"
proof (induction nets arbitrary: st)
  case Nil
  show ?case by (simp add: nodes_grow_same)
next
  case (Cons net nets)
  from nodes_grow_trans [OF nodes_grow_process_network Cons.IH]
  show ?case by simp
qed

lemma nodes_grow_process_lsp:
  "nodes_grow (lsp_node_ids cfg l) st (process_lsp fnm cfg pid l st)"
proof -
  let ?n = "\<lparr>node_id = hostname l, node_label = Some (hostname l),
             bottom_label = Some ''Node'', top_label = Some (rid l), node_description = None\<rparr>"
  let ?st1 = "add_node cfg ?n (Some l) st"
  let ?st2 = "fold (process_link fnm cfg l pid) (links l) ?st1"
  have 1: "nodes_grow [hostname l] st ?st1"
    using nodes_grow_add_node [of ?n st cfg "Some l"] by simp
  have 2: "nodes_grow [] ?st1 ?st2"
    by (rule nodes_grow_same) simp
  show ?thesis
  proof (cases "add_connected cfg")
    case True
    from nodes_grow_trans [OF nodes_grow_trans [OF 1 2] nodes_grow_fold_network [of "networks l" ?st2 cfg l]]
    show ?thesis using True
      by (simp add: process_lsp_def lsp_node_ids_def Let_def)
  next
    case False
    from nodes_grow_trans [OF 1 2] show ?thesis using False
      by (simp add: process_lsp_def lsp_node_ids_def Let_def)
  qed
qed

lemma nodes_grow_fold_lsp:
  "nodes_grow (concat (map (lsp_node_ids cfg) lsps)) st (fold (process_lsp fnm cfg pid) lsps st)"
proof (induction lsps arbitrary: st)
  case Nil
  show ?case by (simp add: nodes_grow_same)
next
  case (Cons l lsps)
  from nodes_grow_trans [OF nodes_grow_process_lsp Cons.IH]
  show ?case by simp
qed

lemma nodes_grow_fold_proc:
  "nodes_grow (concat (map (\<lambda>(isis_pid, lsps). concat (map (lsp_node_ids cfg) lsps)) dev)) st
     (fold (\<lambda>(isis_pid, lsps). fold (process_lsp fnm cfg isis_pid) lsps) dev st)"
proof (induction dev arbitrary: st)
  case Nil
  show ?case by (simp add: nodes_grow_same)
next
  case (Cons p dev)
  obtain pid lsps where p: "p = (pid, lsps)" by (cases p)
  from nodes_grow_trans [OF nodes_grow_fold_lsp Cons.IH]
  show ?case by (simp add: p)
qed

lemma nodes_grow_fold_dev:
  "nodes_grow (node_ids cfg parsed) st
     (fold (\<lambda>dev. fold (\<lambda>(isis_pid, lsps). fold (process_lsp fnm cfg isis_pid) lsps) dev) parsed st)"
proof (induction parsed arbitrary: st)
  case Nil
  show ?case by (simp add: nodes_grow_same node_ids_def)
next
  case (Cons dev parsed)
  from nodes_grow_trans [OF nodes_grow_fold_proc Cons.IH [unfolded node_ids_def]]
  show ?case by (simp add: node_ids_def)
qed

lemma add_node_fill:
  assumes "map_of (nodes_dict st) (node_id n) = Some s"
  shows "\<exists>s'. map_of (nodes_dict (add_node cfg n nd st)) (node_id n) = Some s' \<and>
              node_label s' = (case node_label s of None \<Rightarrow> node_label n | Some v \<Rightarrow> Some v) \<and>
              bottom_label s' = (case bottom_label s of None \<Rightarrow> bottom_label n | Some v \<Rightarrow> Some v) \<and>
              top_label s' = (case top_label s of None \<Rightarrow> top_label n | Some v \<Rightarrow> Some v)"
  using assms by (simp add: add_node_def Let_def update_conv' fill_absent_def)

text \<open>
  C4. Node deduplication, first writer wins. From a state whose nodes are stored once per
  key and under their own ids, graph building leaves a node list with pairwise different
  ids, which are the ids stored before and the ids sighted in the parsed records; every
  node stored before is still stored under its id and has kept every attribute it had;
  and a single \<open>_add_node\<close> for an id already stored keeps what is set and fills an absent
  label, bottom label or top label from the new sighting.
\<close>

theorem node_dedup_first_writer_wins:
  assumes "distinct (map fst (nodes_dict st))" and "keyed st"
  shows "distinct (map node_id (map snd (nodes_dict (form_base_graph_dict fnm cfg st)))) \<and>
         map node_id (map snd (nodes_dict (form_base_graph_dict fnm cfg st)))
           = map fst (nodes_dict (form_base_graph_dict fnm cfg st)) \<and>
         set (map fst (nodes_dict (form_base_graph_dict fnm cfg st)))
           = set (map fst (nodes_dict st)) \<union> set (node_ids cfg (parsed_data st)) \<and>
         (\<forall>k n. map_of (nodes_dict st) k = Some n \<longrightarrow>
            (\<exists>n'. map_of (nodes_dict (form_base_graph_dict fnm cfg st)) k = Some n' \<and> keeps n n')) \<and>
         (\<forall>n nd s. map_of (nodes_dict st) (node_id n) = Some s \<longrightarrow>
            (\<exists>s'. map_of (nodes_dict (add_node cfg n nd st)) (node_id n) = Some s' \<and> keeps s s' \<and>
               node_label s' = (case node_label s of None \<Rightarrow> node_label n | Some v \<Rightarrow> Some v) \<and>
               bottom_label s' = (case bottom_label s of None \<Rightarrow> bottom_label n | Some v \<Rightarrow> Some v) \<and>
               top_label s' = (case top_label s of None \<Rightarrow> top_label n | Some v \<Rightarrow> Some v)))"
proof -
  let ?st' = "form_base_graph_dict fnm cfg st"
  have g: "nodes_grow (node_ids cfg (parsed_data st)) st ?st'"
    unfolding form_base_graph_dict_def by (rule nodes_grow_fold_dev)
  with assms have d: "distinct (map fst (nodes_dict ?st'))" and k: "keyed ?st'"
    by (simp_all add: nodes_grow_def)
  from k have m: "map node_id (map snd (nodes_dict ?st')) = map fst (nodes_dict ?st')"
    by (auto simp: keyed_def list_all_iff)
  have step: "\<exists>s'. map_of (nodes_dict (add_node cfg n nd st)) (node_id n) = Some s' \<and> keeps s s' \<and>
               node_label s' = (case node_label s of None \<Rightarrow> node_label n | Some v \<Rightarrow> Some v) \<and>
               bottom_label s' = (case bottom_label s of None \<Rightarrow> bottom_label n | Some v \<Rightarrow> Some v) \<and>
               top_label s' = (case top_label s of None \<Rightarrow> top_label n | Some v \<Rightarrow> Some v)"
    if "map_of (nodes_dict st) (node_id n) = Some s" for n nd s
  proof -
    from add_node_fill [OF that, of cfg nd] obtain s' where
      s': "map_of (nodes_dict (add_node cfg n nd st)) (node_id n) = Some s'"
        "node_label s' = (case node_label s of None \<Rightarrow> node_label n | Some v \<Rightarrow> Some v)"
        "bottom_label s' = (case bottom_label s of None \<Rightarrow> bottom_label n | Some v \<Rightarrow> Some v)"
        "top_label s' = (case top_label s of None \<Rightarrow> top_label n | Some v \<Rightarrow> Some v)"
      by blast
    have "nodes_keep st (add_node cfg n nd st)"
      using nodes_grow_add_node [of n st cfg nd] by (simp add: nodes_grow_def)
    with that s'(1) have "keeps s s'"
      unfolding nodes_keep_def by fastforce
    with s' show ?thesis by blast
  qed
  from d have dn: "distinct (map node_id (map snd (nodes_dict ?st')))"
    by (simp only: m)
  from g have keys: "set (map fst (nodes_dict ?st'))
      = set (map fst (nodes_dict st)) \<union> set (node_ids cfg (parsed_data st))"
    by (simp add: nodes_grow_def)
  from g have keep: "\<forall>k n. map_of (nodes_dict st) k = Some n \<longrightarrow>
      (\<exists>n'. map_of (nodes_dict ?st') k = Some n' \<and> keeps n n')"
    by (simp add: nodes_grow_def nodes_keep_def)
  from step have step': "\<forall>n nd s. map_of (nodes_dict st) (node_id n) = Some s \<longrightarrow>
      (\<exists>s'. map_of (nodes_dict (add_node cfg n nd st)) (node_id n) = Some s' \<and> keeps s s' \<and>
         node_label s' = (case node_label s of None \<Rightarrow> node_label n | Some v \<Rightarrow> Some v) \<and>
         bottom_label s' = (case bottom_label s of None \<Rightarrow> bottom_label n | Some v \<Rightarrow> Some v) \<and>
         top_label s' = (case top_label s of None \<Rightarrow> top_label n | Some v \<Rightarrow> Some v))"
    by blast
  from dn m keys keep step' show ?thesis
    by blast
qed


theorem node_dedup_first_writer_wins_witness:
  "set (map fst (nodes_dict (form_base_graph_dict ex_fnmatchcase ex_cfg_conn ex_state_r1))) = {''R1''} \<and>
   distinct (map node_id (map snd
      (nodes_dict (form_base_graph_dict ex_fnmatchcase ex_cfg_conn ex_state_r1)))) \<and>
   (\<exists>n'. map_of (nodes_dict (form_base_graph_dict ex_fnmatchcase ex_cfg_conn ex_state_r1)) ''R1''
            = Some n' \<and>
         bottom_label n' = Some ''Node'' \<and> top_label n' = Some ''1.1.1.1'')"
proof -
  have d: "distinct (map fst (nodes_dict ex_state_r1))" and k: "keyed ex_state_r1"
    by (simp_all add: ex_state_r1_def init_state_def keyed_def ex_node_r1_def)
  have m: "map_of (nodes_dict ex_state_r1) ''R1'' = Some ex_node_r1"
    by (simp add: ex_state_r1_def init_state_def)
  have ids: "set (map fst (nodes_dict ex_state_r1))
               \<union> set (node_ids ex_cfg_conn (parsed_data ex_state_r1)) = {''R1''}"
    by (simp add: ex_state_r1_def init_state_def node_ids_def lsp_node_ids_def ex_cfg_conn_def
        ex_cfg_def ex_lsp_def)
  note t = node_dedup_first_writer_wins [OF d k, of ex_fnmatchcase ex_cfg_conn]
  from t have 1: "distinct (map node_id (map snd
      (nodes_dict (form_base_graph_dict ex_fnmatchcase ex_cfg_conn ex_state_r1))))"
    by (rule conjunct1)
  from t have "set (map fst
      (nodes_dict (form_base_graph_dict ex_fnmatchcase ex_cfg_conn ex_state_r1)))
      = set (map fst (nodes_dict ex_state_r1))
               \<union> set (node_ids ex_cfg_conn (parsed_data ex_state_r1))"
    by blast
  with ids have 2: "set (map fst
      (nodes_dict (form_base_graph_dict ex_fnmatchcase ex_cfg_conn ex_state_r1))) = {''R1''}"
    by (simp only:)
  from t have "\<forall>k n. map_of (nodes_dict ex_state_r1) k = Some n \<longrightarrow>
      (\<exists>n'. map_of (nodes_dict (form_base_graph_dict ex_fnmatchcase ex_cfg_conn ex_state_r1)) k
              = Some n' \<and> keeps n n')"
    by blast
  with m obtain n' where
    n': "map_of (nodes_dict (form_base_graph_dict ex_fnmatchcase ex_cfg_conn ex_state_r1)) ''R1''
           = Some n'" "keeps ex_node_r1 n'"
    by blast
  from n'(2) have "bottom_label n' = Some ''Node''" "top_label n' = Some ''1.1.1.1''"
    by (simp_all add: keeps_def ex_node_r1_def)
  with 1 2 n'(1) show ?thesis
    by blast
qed

lemma process_link_skip:
  "ptp_match fnm cfg adj \<Longrightarrow> process_link fnm cfg l pid adj st = st"
  by (simp only: process_link_def if_True)

lemma fold_process_link_filter:
  "fold (process_link fnm cfg l pid) adjs st
     = fold (process_link fnm cfg l pid) (filter (\<lambda>adj. \<not> ptp_match fnm cfg adj) adjs) st"
proof (induction adjs arbitrary: st)
  case Nil
  show ?case by simp
next
  case (Cons x xs)
  show ?case
  proof (cases "ptp_match fnm cfg x")
    case True
    with process_link_skip [of fnm cfg x l pid st] Cons.IH [of st] show ?thesis by simp
  next
    case False
    with Cons.IH [of "process_link fnm cfg l pid x st"] show ?thesis by simp
  qed
qed

lemma same_links_refl: "same_links s s"
  by (simp add: same_links_def)

lemma same_links_add_link:
  "same_links s t \<Longrightarrow> same_links (add_link cfg a ld s) (add_link cfg a ld t)"
  by (simp add: same_links_def add_link_def group_of_def deref_def Let_def)

lemma same_links_add_node_l: "same_links s t \<Longrightarrow> same_links (add_node cfg n nd s) t"
  by (simp add: same_links_def add_node_def Let_def split: option.splits)

lemma same_links_add_node_r: "same_links s t \<Longrightarrow> same_links s (add_node cfg n nd t)"
  by (simp add: same_links_def add_node_def Let_def split: option.splits)

lemma same_links_alloc_add_link:
  "same_links s t \<Longrightarrow>
   same_links (add_link cfg (length (heap s)) ld (s\<lparr>heap := heap s @ [k]\<rparr>))
              (add_link cfg (length (heap t)) ld (t\<lparr>heap := heap t @ [k]\<rparr>))"
  by (simp add: same_links_def add_link_def group_of_def deref_def Let_def)

lemma same_links_process_link:
  assumes "same_links s t" and "hostname l = hostname l'" and "level l = level l'"
  shows "same_links (process_link fnm cfg l pid adj s) (process_link fnm cfg l' pid adj t)"
  unfolding process_link_def alloc_def Let_def prod.case assms(2) assms(3)
  using assms(1) same_links_alloc_add_link [OF assms(1)]
  by (cases "ptp_match fnm cfg adj") (simp_all only: if_True if_False)

lemma same_links_fold_process_link:
  assumes "hostname l = hostname l'" and "level l = level l'"
  shows "same_links s t \<Longrightarrow>
         same_links (fold (process_link fnm cfg l pid) adjs s)
                    (fold (process_link fnm cfg l' pid) adjs t)"
proof (induction adjs arbitrary: s t)
  case Nil
  then show ?case by simp
next
  case (Cons x xs)
  from Cons.IH [OF same_links_process_link [OF Cons.prems assms]] show ?case by simp
qed

lemma same_links_process_network:
  assumes "same_links s t" and "hostname l = hostname l'" and "level l = level l'"
  shows "same_links (process_network cfg l net s) (process_network cfg l' net t)"
proof -
  let ?n = "\<lparr>node_id = network net, node_label = Some (network net),
             bottom_label = Some ''Subnet'', top_label = None, node_description = None\<rparr>"
  have 1: "same_links (add_node cfg ?n None s) (add_node cfg ?n None t)"
    using assms(1) by (intro same_links_add_node_l same_links_add_node_r)
  show ?thesis
    unfolding process_network_def alloc_def Let_def prod.case assms(2) assms(3)
    by (rule same_links_alloc_add_link [OF 1])
qed

lemma same_links_fold_process_network:
  assumes "hostname l = hostname l'" and "level l = level l'"
  shows "same_links s t \<Longrightarrow>
         same_links (fold (process_network cfg l) nets s) (fold (process_network cfg l') nets t)"
proof (induction nets arbitrary: s t)
  case Nil
  then show ?case by simp
next
  case (Cons x xs)
  from Cons.IH [OF same_links_process_network [OF Cons.prems assms]] show ?case by simp
qed

lemma same_links_process_lsp:
  assumes "same_links s t"
  shows "same_links (process_lsp fnm cfg pid l s) (process_lsp fnm cfg pid (strip_lsp fnm cfg l) t)"
proof -
  let ?l' = "strip_lsp fnm cfg l"
  have hl: "hostname l = hostname ?l'" "level l = level ?l'" "networks ?l' = networks l"
    "rid ?l' = rid l"
    by (simp_all add: strip_lsp_def)
  let ?n = "\<lparr>node_id = hostname l, node_label = Some (hostname l),
             bottom_label = Some ''Node'', top_label = Some (rid l), node_description = None\<rparr>"
  let ?s1 = "add_node cfg ?n (Some l) s" and ?t1 = "add_node cfg ?n (Some ?l') t"
  have 1: "same_links ?s1 ?t1"
    using assms by (intro same_links_add_node_l same_links_add_node_r)
  let ?s2 = "fold (process_link fnm cfg l pid) (links l) ?s1"
  let ?t2 = "fold (process_link fnm cfg ?l' pid) (links ?l') ?t1"
  have "?s2 = fold (process_link fnm cfg l pid) (links ?l') ?s1"
    using fold_process_link_filter [of fnm cfg l pid "links l" ?s1] by (simp add: strip_lsp_def)
  with same_links_fold_process_link [OF hl(1,2) 1, of fnm cfg pid "links ?l'"]
  have 2: "same_links ?s2 ?t2" by simp
  have 3: "same_links (fold (process_network cfg l) (networks l) ?s2)
                       (fold (process_network cfg ?l') (networks l) ?t2)"
    using hl(1,2) 2 by (rule same_links_fold_process_network)
  have ps: "process_lsp fnm cfg pid l s
        = (if add_connected cfg then fold (process_network cfg l) (networks l) ?s2 else ?s2)"
    by (simp add: process_lsp_def Let_def)
  have pt: "process_lsp fnm cfg pid ?l' t
        = (if add_connected cfg then fold (process_network cfg ?l') (networks l) ?t2 else ?t2)"
    by (simp add: process_lsp_def Let_def hl(1)[symmetric] hl(3,4))
  show ?thesis
    unfolding ps pt using 2 3 by simp
qed

lemma same_links_fold_lsp:
  "same_links s t \<Longrightarrow>
   same_links (fold (process_lsp fnm cfg pid) lsps s)
              (fold (process_lsp fnm cfg pid) (map (strip_lsp fnm cfg) lsps) t)"
proof (induction lsps arbitrary: s t)
  case Nil
  then show ?case by simp
next
  case (Cons l ls)
  from Cons.IH [OF same_links_process_lsp [OF Cons.prems]] show ?case by simp
qed

lemma same_links_fold_proc:
  "same_links s t \<Longrightarrow>
   same_links (fold (\<lambda>(isis_pid, lsps). fold (process_lsp fnm cfg isis_pid) lsps) dev s)
              (fold (\<lambda>(isis_pid, lsps). fold (process_lsp fnm cfg isis_pid) lsps)
                 (map (\<lambda>(isis_pid, lsps). (isis_pid, map (strip_lsp fnm cfg) lsps)) dev) t)"
proof (induction dev arbitrary: s t)
  case Nil
  then show ?case by simp
next
  case (Cons p dev)
  obtain pid lsps where p: "p = (pid, lsps)" by (cases p)
  from Cons.IH [OF same_links_fold_lsp [OF Cons.prems]] show ?case by (simp add: p)
qed

lemma same_links_fold_dev:
  "same_links s t \<Longrightarrow>
   same_links
     (fold (\<lambda>dev. fold (\<lambda>(isis_pid, lsps). fold (process_lsp fnm cfg isis_pid) lsps) dev) parsed s)
     (fold (\<lambda>dev. fold (\<lambda>(isis_pid, lsps). fold (process_lsp fnm cfg isis_pid) lsps) dev)
        (strip_parsed fnm cfg parsed) t)"
proof (induction parsed arbitrary: s t)
  case Nil
  then show ?case by (simp add: strip_parsed_def)
next
  case (Cons dev parsed)
  from Cons.IH [OF same_links_fold_proc [OF Cons.prems], unfolded strip_parsed_def]
  show ?case by (simp add: strip_parsed_def)
qed

lemma same_links_form_base_graph_dict:
  "same_links (form_base_graph_dict fnm cfg st)
     (form_base_graph_dict fnm cfg (st\<lparr>parsed_data := strip_parsed fnm cfg (parsed_data st)\<rparr>))"
  unfolding form_base_graph_dict_def
  using same_links_fold_dev [of st "st\<lparr>parsed_data := strip_parsed fnm cfg (parsed_data st)\<rparr>"
      fnm cfg "parsed_data st"]
  by (simp add: same_links_def)

text \<open>
  C5. Filter exclusion. An adjacency whose local IP (the empty string when absent) matches
  a pattern of \<open>ptp_filter\<close> leaves the state as it is: no link object is made for it and
  nothing is inserted. The loop over the adjacencies of an LSP ends in the state in which
  the loop over the adjacencies that match no pattern ends. The graph builder leaves the
  link objects and the links mapping it would leave on the parser output without the
  matching adjacencies.
\<close>

theorem ptp_filter_excludes:
  "(ptp_match fnm cfg adj \<longrightarrow> process_link fnm cfg l pid adj st = st) \<and>
   fold (process_link fnm cfg l pid) adjs st
     = fold (process_link fnm cfg l pid) (filter (\<lambda>adj. \<not> ptp_match fnm cfg adj) adjs) st \<and>
   same_links (form_base_graph_dict fnm cfg st)
     (form_base_graph_dict fnm cfg (st\<lparr>parsed_data := strip_parsed fnm cfg (parsed_data st)\<rparr>))"
proof (intro conjI)
  show "ptp_match fnm cfg adj \<longrightarrow> process_link fnm cfg l pid adj st = st"
    using process_link_skip by blast
  show "fold (process_link fnm cfg l pid) adjs st
     = fold (process_link fnm cfg l pid) (filter (\<lambda>adj. \<not> ptp_match fnm cfg adj) adjs) st"
    by (rule fold_process_link_filter)
  show "same_links (form_base_graph_dict fnm cfg st)
     (form_base_graph_dict fnm cfg (st\<lparr>parsed_data := strip_parsed fnm cfg (parsed_data st)\<rparr>))"
    by (rule same_links_form_base_graph_dict)
qed

theorem ptp_filter_excludes_witness:
  "process_link ex_fnmatchcase ex_cfg_filter (ex_lsp ''R1'' ''1.1.1.1'' [] []) ''100'' ex_adj_ip
     init_state = init_state \<and>
   fold (process_link ex_fnmatchcase ex_cfg_filter (ex_lsp ''R1'' ''1.1.1.1'' [] []) ''100'')
     [ex_adj_ip, ex_adj ''R2'' ''Gi1'' ''Gi2''] init_state
   = fold (process_link ex_fnmatchcase ex_cfg_filter (ex_lsp ''R1'' ''1.1.1.1'' [] []) ''100'')
     [ex_adj ''R2'' ''Gi1'' ''Gi2''] init_state"
proof -
  have a: "ptp_match ex_fnmatchcase ex_cfg_filter ex_adj_ip"
    and b: "\<not> ptp_match ex_fnmatchcase ex_cfg_filter (ex_adj ''R2'' ''Gi1'' ''Gi2'')"
    by (simp_all add: ptp_match_def ex_fnmatchcase_def ex_cfg_filter_def ex_cfg_def ex_adj_ip_def
        ex_adj_def)
  from a b
    ptp_filter_excludes [of ex_fnmatchcase ex_cfg_filter ex_adj_ip "ex_lsp ''R1'' ''1.1.1.1'' [] []"
      "''100''" init_state "[ex_adj_ip, ex_adj ''R2'' ''Gi1'' ''Gi2'']"]
  show ?thesis by simp
qed

text \<open>
  C7, as stated, fails: with one device reporting one adjacency, the group of the link has
  one entry, the packer leaves it untouched, and the link handed to the drawing has all
  four correlation keys, the two interface ids with their strings.
\<close>

theorem single_group_emits_correlation_keys:
  "payload_keys (work ex_parse ex_fnmatchcase ex_cfg ex_one init_state)
     = [[(Some (PStr ''Gi1''), Some (PStr ''Gi2''), Some PNone, Some PNone)]]"
  by code_simp

text \<open>
  C2. Three links of one group, two of which pair by interface id. Built without
  descriptions (\<open>add_data\<close> off), the group of three makes the packer raise \<open>KeyError\<close> when
  it reads the description of the candidate; built with descriptions, the packed group has
  two entries.
\<close>

theorem pack_links_without_data_raises:
  "pack_links (ex_cfg\<lparr>add_data := False\<rparr>)
     (form_base_graph_dict ex_fnmatchcase (ex_cfg\<lparr>add_data := False\<rparr>)
        (init_state\<lparr>parsed_data := ex_three\<rparr>)) = Inl KeyError \<and>
   group_sizes (Inr (form_base_graph_dict ex_fnmatchcase (ex_cfg\<lparr>add_data := False\<rparr>)
        (init_state\<lparr>parsed_data := ex_three\<rparr>))) = Inr [3] \<and>
   group_sizes (pack_links ex_cfg
     (form_base_graph_dict ex_fnmatchcase ex_cfg (init_state\<lparr>parsed_data := ex_three\<rparr>)))
     = Inr [2]"
proof (intro conjI)
  show "pack_links (ex_cfg\<lparr>add_data := False\<rparr>)
     (form_base_graph_dict ex_fnmatchcase (ex_cfg\<lparr>add_data := False\<rparr>)
        (init_state\<lparr>parsed_data := ex_three\<rparr>)) = Inl KeyError"
    by code_simp
  show "group_sizes (Inr (form_base_graph_dict ex_fnmatchcase (ex_cfg\<lparr>add_data := False\<rparr>)
        (init_state\<lparr>parsed_data := ex_three\<rparr>))) = Inr [3]"
    by code_simp
  show "group_sizes (pack_links ex_cfg
     (form_base_graph_dict ex_fnmatchcase ex_cfg (init_state\<lparr>parsed_data := ex_three\<rparr>)))
     = Inr [2]"
    by code_simp
qed

lemma sink_same_refl [simp]: "sink_same st st"
  by (simp add: sink_same_def)

lemma sink_same_trans: "sink_same a b \<Longrightarrow> sink_same b c \<Longrightarrow> sink_same a c"
  by (simp add: sink_same_def)

lemma sink_add_link [simp]: "sink_same st (add_link cfg a ld st)"
  by (simp add: sink_same_def add_link_def Let_def)

lemma sink_add_node [simp]: "sink_same st (add_node cfg n nd st)"
  by (simp add: sink_same_def add_node_def Let_def split: option.splits)

lemma sink_process_link [simp]: "sink_same st (process_link fnm cfg l pid adj st)"
  by (simp add: sink_same_def process_link_def alloc_def add_link_def Let_def)

lemma sink_process_network [simp]: "sink_same st (process_network cfg l net st)"
  by (simp add: sink_same_def process_network_def alloc_def add_link_def add_node_def Let_def
      split: option.splits)

lemma sink_fold:
  assumes "\<And>x s. sink_same s (f x s)"
  shows "sink_same st (fold f xs st)"
proof (induction xs arbitrary: st)
  case Nil
  show ?case by simp
next
  case (Cons x xs)
  from sink_same_trans [OF assms Cons.IH] show ?case by simp
qed

lemma sink_process_lsp [simp]: "sink_same st (process_lsp fnm cfg pid l st)"
proof -
  let ?n = "\<lparr>node_id = hostname l, node_label = Some (hostname l),
             bottom_label = Some ''Node'', top_label = Some (rid l), node_description = None\<rparr>"
  let ?st1 = "add_node cfg ?n (Some l) st"
  let ?st2 = "fold (process_link fnm cfg l pid) (links l) ?st1"
  have 1: "sink_same st ?st1" by simp
  have 2: "sink_same ?st1 ?st2" by (rule sink_fold) simp
  have 3: "sink_same ?st2 (fold (process_network cfg l) (networks l) ?st2)"
    by (rule sink_fold) simp
  from 1 2 3 show ?thesis
    by (simp add: process_lsp_def Let_def sink_same_def)
qed

lemma sink_form_base_graph_dict: "sink_same st (form_base_graph_dict fnm cfg st)"
  unfolding form_base_graph_dict_def
proof (rule sink_fold)
  fix dev s
  show "sink_same s (fold (\<lambda>(isis_pid, lsps). fold (process_lsp fnm cfg isis_pid) lsps) dev s)"
  proof (rule sink_fold)
    fix p s'
    show "sink_same s' ((\<lambda>(isis_pid, lsps). fold (process_lsp fnm cfg isis_pid) lsps) p s')"
      by (cases p) (simp add: sink_fold)
  qed
qed


lemma pack_pool_Nil: "pack_pool cfg [] st = Inr st"
  by (simp add: pack_pool.simps)

lemma pack_pool_cases:
  assumes "pack_pool cfg pool st = Inr st'"
  obtains (empty) "pool = []" and "st' = st"
  | (alone) lid pid pip lip l' where "pool \<noteq> []"
      and "pop_keys (heap st ! last pool) = Inr (lid, pid, pip, lip, l')"
      and "find_partner lid pid pip lip ((heap st)[last pool := l']) (butlast pool) = Inr None"
      and "pack_pool cfg (butlast pool)
             (add_link cfg (last pool) [] (st\<lparr>heap := (heap st)[last pool := l']\<rparr>)) = Inr st'"
  | (paired) lid pid pip lip l' b st2 j where "pool \<noteq> []"
      and "pop_keys (heap st ! last pool) = Inr (lid, pid, pip, lip, l')"
      and "find_partner lid pid pip lip ((heap st)[last pool := l']) (butlast pool) = Inr (Some b)"
      and "merge_pair cfg (last pool) b (st\<lparr>heap := (heap st)[last pool := l']\<rparr>) = Inr st2"
      and "list_index (deref st2 (butlast pool)) (heap st2 ! b) = Some j"
      and "pack_pool cfg (remove_at j (butlast pool)) st2 = Inr st'"
proof (cases "pool = []")
  case True
  with assms empty show ?thesis by (simp add: pack_pool_Nil)
next
  case False
  from assms False obtain lid pid pip lip l' where
    pk: "pop_keys (heap st ! last pool) = Inr (lid, pid, pip, lip, l')"
    by (subst (asm) pack_pool.simps) (auto simp: Let_def split: sum.splits)
  from assms False pk obtain r where
    fp: "find_partner lid pid pip lip ((heap st)[last pool := l']) (butlast pool) = Inr r"
    by (subst (asm) pack_pool.simps) (auto simp: Let_def split: sum.splits)
  show ?thesis
  proof (cases r)
    case None
    with assms False pk fp
    have "pack_pool cfg (butlast pool)
            (add_link cfg (last pool) [] (st\<lparr>heap := (heap st)[last pool := l']\<rparr>)) = Inr st'"
      by (subst (asm) pack_pool.simps) (simp add: Let_def)
    with alone False pk fp None show ?thesis by blast
  next
    case (Some b)
    with assms False pk fp obtain st2 j where
      "merge_pair cfg (last pool) b (st\<lparr>heap := (heap st)[last pool := l']\<rparr>) = Inr st2"
      "list_index (deref st2 (butlast pool)) (heap st2 ! b) = Some j"
      "pack_pool cfg (remove_at j (butlast pool)) st2 = Inr st'"
      by (subst (asm) pack_pool.simps) (auto simp: Let_def split: sum.splits option.splits)
    with paired False pk fp Some show ?thesis by blast
  qed
qed

lemma length_remove_at_butlast: "pool \<noteq> [] \<Longrightarrow> length (remove_at j (butlast pool)) < length pool"
  by (auto simp: remove_at_def min_def simp flip: length_greater_0_conv)

lemma sink_merge_pair: "merge_pair cfg a b st = Inr st' \<Longrightarrow> sink_same st st'"
  by (auto simp: merge_pair_def Let_def sink_same_def add_link_def
      split: option.splits if_splits sum.splits)

lemma sink_pack_pool: "pack_pool cfg pool st = Inr st' \<Longrightarrow> sink_same st st'"
proof (induction "length pool" arbitrary: pool st rule: less_induct)
  case less
  from less.prems show ?case
  proof (cases rule: pack_pool_cases)
    case empty
    then show ?thesis by simp
  next
    case (alone lid pid pip lip l')
    from less.hyps [OF _ alone(4)] alone(1)
    show ?thesis by (simp add: sink_same_def add_link_def Let_def)
  next
    case (paired lid pid pip lip l' b st2 j)
    from less.hyps [OF length_remove_at_butlast [OF paired(1)] paired(6)] sink_merge_pair [OF paired(4)]
    show ?thesis by (simp add: sink_same_def)
  qed
qed

lemma sink_pack_group: "pack_group cfg h st = Inr st' \<Longrightarrow> sink_same st st'"
  by (auto simp: pack_group_def sink_same_def split: option.splits if_splits
      dest!: sink_pack_pool)

lemma sink_pack_keys: "pack_keys cfg n hs st = Inr st' \<Longrightarrow> sink_same st st'"
proof (induction hs arbitrary: st)
  case Nil
  then show ?case by (simp split: if_splits)
next
  case (Cons h hs)
  from Cons.prems obtain st1 where "pack_group cfg h st = Inr st1" "pack_keys cfg n hs st1 = Inr st'"
    by (auto split: if_splits sum.splits)
  with Cons.IH [of st1] sink_pack_group [of cfg h st st1] show ?case
    by (simp add: sink_same_def)
qed

lemma sink_pack_links: "pack_links cfg st = Inr st' \<Longrightarrow> sink_same st st'"
  by (simp add: pack_links_def sink_pack_keys)

lemma sink_lookup:
  "(if ip_lookup_data cfg \<noteq> []
    then (case lookup_rid cfg st of Inl e \<Rightarrow> Inl e | Inr st3 \<Rightarrow> lookup_ip_interfaces cfg st3)
    else Inr st) = Inr st' \<Longrightarrow> sink_same st st'"
  by (auto simp: lookup_rid_def lookup_ip_interfaces_def sink_same_def
      split: if_splits sum.splits)

lemma work_Inr:
  assumes "work parse fnm cfg d st = Inr st'"
  obtains st4 where "st' = update_drawing st4" and "sink_same st st4"
proof -
  from assms obtain parsed st2 st4 where
    "pack_links cfg (form_base_graph_dict fnm cfg (st\<lparr>parsed_data := parsed\<rparr>)) = Inr st2"
    and l: "(if ip_lookup_data cfg \<noteq> []
          then (case lookup_rid cfg st2 of Inl e \<Rightarrow> Inl e | Inr st3 \<Rightarrow> lookup_ip_interfaces cfg st3)
          else Inr st2) = Inr st4"
    and u: "st' = update_drawing st4"
    unfolding work_def Let_def by (auto split: sum.splits)
  from sink_pack_links [OF this(1)] sink_form_base_graph_dict [of "st\<lparr>parsed_data := parsed\<rparr>" fnm cfg]
    sink_lookup [OF l]
  have "sink_same st st4" by (simp add: sink_same_def)
  with u that show ?thesis by blast
qed

text \<open>
  C10, as stated, fails. R1 reports its adjacency to R2 in a first call and R2 reports it
  back in a second: the second call pairs the two links and drops the first one from
  \<open>links_dict\<close>, so the link of the first payload is in the second payload once, not twice.
  And after a first call that left a packed group of two links, a second call raises
  \<open>KeyError\<close>, even on empty data, and hands the drawing nothing.
\<close>

theorem work_twice_counterexample:
  "(case work ex_parse ex_fnmatchcase ex_cfg ex_one init_state of
      Inl e \<Rightarrow> False
    | Inr st1 \<Rightarrow>
        graph_links st1 = [0] \<and>
        (case work ex_parse ex_fnmatchcase ex_cfg ex_back st1 of
           Inl e \<Rightarrow> False
         | Inr st2 \<Rightarrow>
             graph_links st2 = [0, 1] \<and> map snd (links_dict st2) = [[1]] \<and>
             heap st2 ! 0 \<noteq> heap st2 ! 1 \<and>
             count_list (snd (last (drawing st2))) (hd (snd (last (drawing st1)))) = 1)) \<and>
   (case work ex_parse ex_fnmatchcase ex_cfg ex_three init_state of
      Inl e \<Rightarrow> False
    | Inr st1 \<Rightarrow>
        length (graph_links st1) = 2 \<and>
        work ex_parse ex_fnmatchcase ex_cfg [] st1 = Inl KeyError)"
proof (intro conjI)
  show "case work ex_parse ex_fnmatchcase ex_cfg ex_one init_state of
      Inl e \<Rightarrow> False
    | Inr st1 \<Rightarrow>
        graph_links st1 = [0] \<and>
        (case work ex_parse ex_fnmatchcase ex_cfg ex_back st1 of
           Inl e \<Rightarrow> False
         | Inr st2 \<Rightarrow>
             graph_links st2 = [0, 1] \<and> map snd (links_dict st2) = [[1]] \<and>
             heap st2 ! 0 \<noteq> heap st2 ! 1 \<and>
             count_list (snd (last (drawing st2))) (hd (snd (last (drawing st1)))) = 1)"
    by code_simp
  show "case work ex_parse ex_fnmatchcase ex_cfg ex_three init_state of
      Inl e \<Rightarrow> False
    | Inr st1 \<Rightarrow>
        length (graph_links st1) = 2 \<and>
        work ex_parse ex_fnmatchcase ex_cfg [] st1 = Inl KeyError"
    by code_simp
qed

text \<open>
  C10, amended. State accumulates over two calls of \<open>work\<close> on one instance that both
  return. Each call appends all links of \<open>links_dict\<close> to the payload list, which is never
  cleared, and hands the drawing the nodes and the whole payload list: the link objects of
  the first payload are the first part of the second payload, followed by the links then
  in \<open>links_dict\<close>. A link is in the second payload as often as it was in the first and once
  more for each place it has in \<open>links_dict\<close> after the second call: a link of the first
  payload that is still in \<open>links_dict\<close> is there twice or more. The links are the objects:
  the second call may have changed them in place.
\<close>

theorem work_accumulates:
  assumes "work parse fnm cfg d st = Inr st1" and "work parse' fnm' cfg' d' st1 = Inr st2"
  shows "graph_links st1 = graph_links st @ concat (map snd (links_dict st1)) \<and>
         graph_links st2 = graph_links st1 @ concat (map snd (links_dict st2)) \<and>
         drawing st1 = drawing st @ [(map snd (nodes_dict st1), deref st1 (graph_links st1))] \<and>
         drawing st2 = drawing st1 @
           [(map snd (nodes_dict st2),
             deref st2 (graph_links st1) @ deref st2 (concat (map snd (links_dict st2))))] \<and>
         (\<forall>a. count_list (graph_links st2) a =
                count_list (graph_links st1) a +
                count_list (concat (map snd (links_dict st2))) a) \<and>
         (\<forall>a\<in>set (graph_links st1). a \<in> set (concat (map snd (links_dict st2))) \<longrightarrow>
            2 \<le> count_list (graph_links st2) a)"
proof -
  have *: "graph_links b = graph_links a @ concat (map snd (links_dict b)) \<and>
           drawing b = drawing a @ [(map snd (nodes_dict b), deref b (graph_links b))]"
    if "work p f c x a = Inr b" for p :: "'x \<Rightarrow> error + device list" and f c x a b
    using that by (rule work_Inr) (simp add: update_drawing_def sink_same_def Let_def deref_def)
  have twice: "2 \<le> count_list (xs @ ys) a" if "a \<in> set xs" and "a \<in> set ys"
    for xs ys :: "nat list" and a
  proof -
    from that have "0 < count_list xs a" "0 < count_list ys a"
      by (simp_all add: count_list_0_iff zero_less_iff_neq_zero)
    then show ?thesis by simp
  qed
  note 1 = * [OF assms(1)] and 2 = * [OF assms(2)]
  have "\<forall>a\<in>set (graph_links st1). a \<in> set (concat (map snd (links_dict st2))) \<longrightarrow>
            2 \<le> count_list (graph_links st2) a"
  proof (intro ballI impI)
    fix a
    assume "a \<in> set (graph_links st1)" and "a \<in> set (concat (map snd (links_dict st2)))"
    then have "2 \<le> count_list (graph_links st1 @ concat (map snd (links_dict st2))) a"
      by (rule twice)
    with 2 show "2 \<le> count_list (graph_links st2) a" by (simp only:)
  qed
  moreover from 1 2 have "drawing st2 = drawing st1 @
           [(map snd (nodes_dict st2),
             deref st2 (graph_links st1) @ deref st2 (concat (map snd (links_dict st2))))]"
    by (simp add: deref_def)
  moreover have "\<forall>a. count_list (graph_links st2) a =
                count_list (graph_links st1) a +
                count_list (concat (map snd (links_dict st2))) a"
  proof
    fix a
    from 2 have "count_list (graph_links st2) a
        = count_list (graph_links st1 @ concat (map snd (links_dict st2))) a"
      by (simp only:)
    then show "count_list (graph_links st2) a =
                count_list (graph_links st1) a +
                count_list (concat (map snd (links_dict st2))) a"
      by simp
  qed
  ultimately show ?thesis using 1 2 by blast
qed

theorem work_accumulates_witness:
  "\<exists>st1 st2. work ex_parse ex_fnmatchcase ex_cfg ex_one init_state = Inr st1 \<and>
     work ex_parse ex_fnmatchcase ex_cfg [] st1 = Inr st2 \<and>
     graph_links st1 = [0] \<and> graph_links st2 = [0, 0] \<and>
     2 \<le> count_list (graph_links st2) 0"
proof -
  have "case work ex_parse ex_fnmatchcase ex_cfg ex_one init_state of
          Inl e \<Rightarrow> False
        | Inr st1 \<Rightarrow>
            map snd (links_dict st1) = [[0]] \<and>
            (case work ex_parse ex_fnmatchcase ex_cfg [] st1 of
               Inl e \<Rightarrow> False
             | Inr st2 \<Rightarrow> map snd (links_dict st2) = [[0]])"
    by code_simp
  then obtain st1 st2 where
    1: "work ex_parse ex_fnmatchcase ex_cfg ex_one init_state = Inr st1"
    and l1: "map snd (links_dict st1) = [[0]]"
    and 2: "work ex_parse ex_fnmatchcase ex_cfg [] st1 = Inr st2"
    and l2: "map snd (links_dict st2) = [[0]]"
    by (cases "work ex_parse ex_fnmatchcase ex_cfg ex_one init_state";
        cases "work ex_parse ex_fnmatchcase ex_cfg []
                 (projr (work ex_parse ex_fnmatchcase ex_cfg ex_one init_state))") auto
  have i: "graph_links init_state = []" by (simp add: init_state_def)
  note t = work_accumulates [OF 1 2]
  from t i l1 have g1: "graph_links st1 = [0]" by simp
  from t g1 l2 have g2: "graph_links st2 = [0, 0]" by simp
  from t have "\<forall>a\<in>set (graph_links st1). a \<in> set (concat (map snd (links_dict st2))) \<longrightarrow>
            2 \<le> count_list (graph_links st2) a"
    by blast
  with g1 l2 have "2 \<le> count_list (graph_links st2) 0" by simp
  with 1 2 g1 g2 show ?thesis by blast
qed

subsection \<open>What the packer does to the groups it packs\<close>

text \<open>
  Every link that the packing loop puts back into \<open>links_dict\<close> has lost the four
  correlation keys, paired or not: after \<open>_pack_links\<close> has returned, a group that had two
  or more entries holds only links without them. A group of one entry is skipped.
\<close>

lemma grows_refl: "wf_links st \<Longrightarrow> grows st st"
  by (simp add: grows_def)

lemma grows_trans:
  assumes "grows a b" and "grows b c"
  shows "grows a c"
proof -
  have "\<exists>new. group_of c h = group_of a h @ new \<and> (\<forall>x\<in>set new. stripped (heap c ! x))" for h
  proof -
    from assms(1) obtain n1 where
      n1: "group_of b h = group_of a h @ n1" "\<forall>x\<in>set n1. stripped (heap b ! x)"
      unfolding grows_def by blast
    from assms(2) obtain n2 where
      n2: "group_of c h = group_of b h @ n2" "\<forall>x\<in>set n2. stripped (heap c ! x)"
      unfolding grows_def by blast
    from assms(2) n1(2) have "\<forall>x\<in>set n1. stripped (heap c ! x)"
      unfolding grows_def by blast
    with n1(1) n2 have "group_of c h = group_of a h @ (n1 @ n2) \<and>
        (\<forall>x\<in>set (n1 @ n2). stripped (heap c ! x))"
      by auto
    then show ?thesis by blast
  qed
  with assms show ?thesis
    unfolding grows_def by auto
qed

lemma wf_links_group:
  assumes "wf_links st" and "map_of (links_dict st) h = Some g" and "a \<in> set g"
  shows "a < length (heap st)"
proof -
  from assms(2) have "(h, g) \<in> set (links_dict st)" by (rule map_of_SomeD)
  with assms(1,3) show ?thesis
    by (auto simp: wf_links_def list_all_iff)
qed

lemma wf_links_group_of:
  assumes "wf_links st" and "a \<in> set (group_of st h)"
  shows "a < length (heap st)"
proof (cases "map_of (links_dict st) h")
  case None
  with assms(2) show ?thesis by (simp add: group_of_def)
next
  case (Some g)
  with assms(2) have "a \<in> set g" by (simp add: group_of_def)
  with assms(1) Some show ?thesis by (rule wf_links_group)
qed

lemma wf_links_update:
  assumes "wf_links st" and "links_dict st' = AList.update k g (links_dict st)"
    and "\<forall>a\<in>set g. a < length (heap st)" and "length (heap st') = length (heap st)"
  shows "wf_links st'"
proof -
  have sub: "set (AList.update k g (links_dict st)) \<subseteq> insert (k, g) (set (links_dict st))"
    by (rule set_update_subset)
  have "x < length (heap st')" if "(k', g') \<in> set (links_dict st')" and "x \<in> set g'" for k' g' x
  proof -
    from that(1) sub assms(2) have "(k', g') = (k, g) \<or> (k', g') \<in> set (links_dict st)"
      by auto
    with that(2) assms(1,3,4) show ?thesis
      by (auto simp: wf_links_def list_all_iff)
  qed
  moreover from assms(1,2) have "distinct (map fst (links_dict st'))"
    by (simp add: wf_links_def distinct_update)
  ultimately show ?thesis
    by (auto simp: wf_links_def list_all_iff)
qed

lemma group_of_update:
  "links_dict st' = AList.update k g (links_dict st) \<Longrightarrow>
   group_of st' k' = (if k' = k then g else group_of st k')"
  by (simp add: group_of_def update_conv')

lemma grows_heap:
  assumes "wf_links st" and "stripped l'"
  shows "grows st (st\<lparr>heap := (heap st)[a := l']\<rparr>)"
proof -
  have "stripped ((heap st)[a := l'] ! x)" if "stripped (heap st ! x)" for x
    using that assms(2)
    by (cases "a < length (heap st)") (auto simp: nth_list_update list_update_beyond)
  moreover have "wf_links (st\<lparr>heap := (heap st)[a := l']\<rparr>)"
    using assms(1) by (simp add: wf_links_def)
  ultimately show ?thesis
    by (simp add: grows_def group_of_def)
qed

lemma grows_add_link:
  assumes "wf_links st" and "a < length (heap st)" and "stripped (heap st ! a)"
  shows "grows st (add_link cfg a ld st)"
proof -
  let ?k = "make_hash_tuple (heap st ! a)"
  let ?g = "group_of st ?k"
  let ?st' = "add_link cfg a ld st"
  have gb: "\<forall>x\<in>set ?g. x < length (heap st)"
    using assms(1) wf_links_group_of by blast
  show ?thesis
  proof (cases "heap st ! a \<in> set (deref st ?g)")
    case True
    then have h: "heap ?st' = heap st" and d: "links_dict ?st' = AList.update ?k ?g (links_dict st)"
      by (simp_all add: add_link_def Let_def)
    have "wf_links ?st'"
      using assms(1) d gb by (rule wf_links_update) (simp add: h)
    moreover have "\<exists>new. group_of ?st' k' = group_of st k' @ new \<and>
        (\<forall>x\<in>set new. stripped (heap ?st' ! x))" for k'
      by (rule exI [of _ "[]"]) (simp add: group_of_update [OF d])
    ultimately show ?thesis
      unfolding grows_def by (simp add: h)
  next
    case False
    let ?l = "if ld \<noteq> [] \<and> add_data cfg
              then (heap st ! a)\<lparr>description := Some (json_dumps ld)\<rparr> else heap st ! a"
    from False have h: "heap ?st' = (heap st)[a := ?l]"
      and d: "links_dict ?st' = AList.update ?k (?g @ [a]) (links_dict st)"
      by (simp_all add: add_link_def Let_def)
    have sl: "stripped ?l" using assms(3) by (simp add: stripped_def)
    have w: "wf_links ?st'"
      using assms(1) d by (rule wf_links_update) (use gb assms(2) in \<open>auto simp: h\<close>)
    have s: "stripped (heap ?st' ! x)" if "stripped (heap st ! x)" for x
      unfolding h using that sl assms(2) by (simp add: nth_list_update)
    have "\<exists>new. group_of ?st' k' = group_of st k' @ new \<and>
        (\<forall>x\<in>set new. stripped (heap ?st' ! x))" for k'
    proof (cases "k' = ?k")
      case True
      have "stripped (heap ?st' ! a)" using s assms(3) by blast
      then show ?thesis
        using True by (intro exI [of _ "[a]"]) (simp add: group_of_update [OF d])
    next
      case False
      then show ?thesis
        by (intro exI [of _ "[]"]) (simp add: group_of_update [OF d])
    qed
    with w s show ?thesis
      unfolding grows_def by (simp add: h)
  qed
qed

lemma grows_merge_pair:
  assumes "merge_pair cfg a b st = Inr st'" and "wf_links st" and "a < length (heap st)"
    and "stripped (heap st ! a)"
  shows "grows st st'"
proof -
  from assms(1) obtain sl where sl: "src_label (heap st ! b) = Some sl"
    by (auto simp: merge_pair_def split: option.splits)
  define st1 where "st1 = st\<lparr>heap := (heap st)[a := (heap st ! a)\<lparr>trgt_label := Some sl\<rparr>]\<rparr>"
  from assms(1) sl obtain d1 d2 where
    d: "description (heap st1 ! a) = Some d1" "description (heap st1 ! b) = Some d2"
    by (auto simp: merge_pair_def st1_def Let_def split: option.splits)
  define st2 where "st2 = add_link cfg a (dict_merge (json_loads d1) (json_loads d2)) st1"
  have g1: "grows st st1"
    unfolding st1_def using assms(2,4) by (intro grows_heap) (simp_all add: stripped_def)
  then have w1: "wf_links st1" and l1: "a < length (heap st1)" and s1: "stripped (heap st1 ! a)"
    using assms(3,4) by (simp_all add: grows_def)
  from w1 l1 s1 have g2: "grows st1 st2"
    unfolding st2_def by (rule grows_add_link)
  then have w2: "wf_links st2" and s2: "stripped (heap st2 ! a)"
    using s1 by (simp_all add: grows_def)
  from assms(1) sl d have
    "st' = st2 \<or> (\<exists>l'. st' = st2\<lparr>heap := (heap st2)[a := (heap st2 ! a)\<lparr>label := Some l'\<rparr>]\<rparr>)"
    by (auto simp: merge_pair_def Let_def simp flip: st1_def st2_def
        split: option.splits if_splits sum.splits)
  then have "grows st2 st'"
  proof
    assume "st' = st2"
    with w2 show ?thesis by (simp add: grows_refl)
  next
    assume "\<exists>l'. st' = st2\<lparr>heap := (heap st2)[a := (heap st2 ! a)\<lparr>label := Some l'\<rparr>]\<rparr>"
    then obtain l' where "st' = st2\<lparr>heap := (heap st2)[a := (heap st2 ! a)\<lparr>label := Some l'\<rparr>]\<rparr>"
      by blast
    with w2 s2 show ?thesis
      by (simp add: grows_heap stripped_def)
  qed
  with g1 g2 show ?thesis
    by (blast intro: grows_trans)
qed

lemma pop_keys_stripped: "pop_keys l = Inr (lid, pid, pip, lip, l') \<Longrightarrow> stripped l'"
  by (auto simp: pop_keys_def stripped_def split: option.splits)

lemma set_remove_at: "set (remove_at j xs) \<subseteq> set xs"
  by (auto simp: remove_at_def dest: in_set_takeD in_set_dropD)

lemma grows_pack_pool:
  assumes "pack_pool cfg pool st = Inr st'" and "wf_links st"
    and "\<forall>a\<in>set pool. a < length (heap st)"
  shows "grows st st'"
  using assms
proof (induction "length pool" arbitrary: pool st rule: less_induct)
  case less
  from less.prems(1) show ?case
  proof (cases rule: pack_pool_cases)
    case empty
    with less.prems(2) show ?thesis by (simp add: grows_refl)
  next
    case (alone lid pid pip lip l')
    let ?a = "last pool"
    let ?st1 = "st\<lparr>heap := (heap st)[?a := l']\<rparr>"
    from alone(1) less.prems(3) have a: "?a < length (heap st)" by simp
    have sl: "stripped l'" using alone(2) by (rule pop_keys_stripped)
    have g1: "grows st ?st1" using less.prems(2) sl by (rule grows_heap)
    have w1: "wf_links ?st1" using g1 by (simp add: grows_def)
    have a1: "?a < length (heap ?st1)" and s1: "stripped (heap ?st1 ! ?a)"
      using a sl by simp_all
    have "grows ?st1 (add_link cfg ?a [] ?st1)"
      using w1 a1 s1 by (rule grows_add_link)
    with g1 have g2: "grows st (add_link cfg ?a [] ?st1)" by (rule grows_trans)
    have "\<forall>x\<in>set (butlast pool). x < length (heap (add_link cfg ?a [] ?st1))"
      using g2 less.prems(3) by (auto simp: grows_def dest: in_set_butlastD)
    with less.hyps [OF _ alone(4)] alone(1) g2 have "grows (add_link cfg ?a [] ?st1) st'"
      by (simp add: grows_def)
    with g2 show ?thesis by (rule grows_trans)
  next
    case (paired lid pid pip lip l' b st2 j)
    let ?a = "last pool"
    let ?st1 = "st\<lparr>heap := (heap st)[?a := l']\<rparr>"
    from paired(1) less.prems(3) have a: "?a < length (heap st)" by simp
    have sl: "stripped l'" using paired(2) by (rule pop_keys_stripped)
    have g1: "grows st ?st1" using less.prems(2) sl by (rule grows_heap)
    have w1: "wf_links ?st1" using g1 by (simp add: grows_def)
    have a1: "?a < length (heap ?st1)" and s1: "stripped (heap ?st1 ! ?a)"
      using a sl by simp_all
    have "grows ?st1 st2"
      using paired(4) w1 a1 s1 by (rule grows_merge_pair)
    with g1 have g2: "grows st st2" by (rule grows_trans)
    have "\<forall>x\<in>set (remove_at j (butlast pool)). x < length (heap st2)"
      using g2 less.prems(3) set_remove_at [of j "butlast pool"]
      by (auto simp: grows_def dest: in_set_butlastD)
    with less.hyps [OF length_remove_at_butlast [OF paired(1)] paired(6)] g2
    have "grows st2 st'"
      by (simp add: grows_def)
    with g2 show ?thesis by (rule grows_trans)
  qed
qed


lemma pack_group_effect:
  assumes "pack_group cfg h st = Inr st'" and "wf_links st"
  shows "wf_links st' \<and>
         (\<forall>x. stripped (heap st ! x) \<longrightarrow> stripped (heap st' ! x)) \<and>
         (\<forall>k. k \<noteq> h \<longrightarrow> (\<exists>new. group_of st' k = group_of st k @ new \<and>
                               (\<forall>a\<in>set new. stripped (heap st' ! a)))) \<and>
         (if length (group_of st h) \<le> 1 then st' = st
          else \<forall>a\<in>set (group_of st' h). stripped (heap st' ! a))"
proof -
  from assms(1) obtain pool where pool: "map_of (links_dict st) h = Some pool"
    by (auto simp: pack_group_def split: option.splits)
  then have gh: "group_of st h = pool" by (simp add: group_of_def)
  show ?thesis
  proof (cases "length pool \<le> 1")
    case True
    with assms pool have "st' = st" by (simp add: pack_group_def)
    with True gh assms(2) show ?thesis
      by (auto intro: exI [of _ "[]"])
  next
    case False
    let ?st0 = "st\<lparr>links_dict := AList.update h [] (links_dict st)\<rparr>"
    from False assms(1) pool have pp: "pack_pool cfg pool ?st0 = Inr st'"
      by (simp add: pack_group_def)
    have d0: "links_dict ?st0 = AList.update h [] (links_dict st)" by simp
    have w0: "wf_links ?st0"
      using assms(2) d0 by (rule wf_links_update) simp_all
    have "\<forall>a\<in>set pool. a < length (heap ?st0)"
      using wf_links_group [OF assms(2) pool] by simp
    with pp w0 have g: "grows ?st0 st'" by (rule grows_pack_pool)
    from g have 1: "wf_links st'" by (simp add: grows_def)
    from g have 2: "\<forall>x. stripped (heap st ! x) \<longrightarrow> stripped (heap st' ! x)"
      by (simp add: grows_def)
    from g have 3: "\<exists>new. group_of st' k = group_of ?st0 k @ new \<and>
        (\<forall>a\<in>set new. stripped (heap st' ! a))" for k
      unfolding grows_def by blast
    have 4: "\<forall>k. k \<noteq> h \<longrightarrow> (\<exists>new. group_of st' k = group_of st k @ new \<and>
                               (\<forall>a\<in>set new. stripped (heap st' ! a)))"
    proof (intro allI impI)
      fix k assume "k \<noteq> h"
      with 3 [of k] show "\<exists>new. group_of st' k = group_of st k @ new \<and>
                               (\<forall>a\<in>set new. stripped (heap st' ! a))"
        by (simp add: group_of_update [OF d0])
    qed
    have 5: "\<forall>a\<in>set (group_of st' h). stripped (heap st' ! a)"
      using 3 [of h] by (auto simp: group_of_update [OF d0])
    from False gh 1 2 4 5 show ?thesis by simp
  qed
qed

lemma pack_keys_stripped:
  assumes "pack_keys cfg n hs st = Inr st'" and "wf_links st"
    and "\<forall>k\<in>D. \<forall>a\<in>set (group_of st k). stripped (heap st ! a)"
    and "k \<in> D \<or> (k \<in> set hs \<and> 2 \<le> length (group_of st k))"
  shows "\<forall>a\<in>set (group_of st' k). stripped (heap st' ! a)"
  using assms
proof (induction hs arbitrary: st D)
  case Nil
  then show ?case by (auto split: if_splits)
next
  case (Cons h hs)
  from Cons.prems(1) obtain st1 where
    pg: "pack_group cfg h st = Inr st1" and pk: "pack_keys cfg n hs st1 = Inr st'"
    by (auto split: if_splits sum.splits)
  note e = pack_group_effect [OF pg Cons.prems(2)]
  from e have w1: "wf_links st1" by blast
  from e have keep: "\<And>x. stripped (heap st ! x) \<Longrightarrow> stripped (heap st1 ! x)" by blast
  from e have other: "\<And>k'. k' \<noteq> h \<Longrightarrow> \<exists>new. group_of st1 k' = group_of st k' @ new \<and>
      (\<forall>a\<in>set new. stripped (heap st1 ! a))" by blast
  from e have own: "if length (group_of st h) \<le> 1 then st1 = st
      else \<forall>a\<in>set (group_of st1 h). stripped (heap st1 ! a)" by blast
  let ?D = "if length (group_of st h) \<le> 1 then D else insert h D"
  have inv: "\<forall>k'\<in>?D. \<forall>a\<in>set (group_of st1 k'). stripped (heap st1 ! a)"
  proof (intro ballI)
    fix k' a
    assume k': "k' \<in> ?D" and a: "a \<in> set (group_of st1 k')"
    show "stripped (heap st1 ! a)"
    proof (cases "k' = h")
      case True
      show ?thesis
      proof (cases "length (group_of st h) \<le> 1")
        case True
        with own have "st1 = st" by simp
        with k' a True Cons.prems(3) show ?thesis by simp
      next
        case False
        with own a \<open>k' = h\<close> show ?thesis by simp
      qed
    next
      case False
      from other [OF False] obtain new where
        new: "group_of st1 k' = group_of st k' @ new" "\<forall>a\<in>set new. stripped (heap st1 ! a)"
        by blast
      from k' False have "k' \<in> D" by (simp split: if_splits)
      with Cons.prems(3) have "\<forall>a\<in>set (group_of st k'). stripped (heap st ! a)" by blast
      with keep have "\<forall>a\<in>set (group_of st k'). stripped (heap st1 ! a)" by blast
      with new a show ?thesis by auto
    qed
  qed
  have cond: "k \<in> ?D \<or> (k \<in> set hs \<and> 2 \<le> length (group_of st1 k))"
  proof (cases "k \<in> D")
    case True
    then show ?thesis by simp
  next
    case False
    with Cons.prems(4) have k: "k \<in> set (h # hs)" "2 \<le> length (group_of st k)" by simp_all
    show ?thesis
    proof (cases "k = h")
      case True
      with k(2) show ?thesis by simp
    next
      case False
      from other [OF False] k(2) have "2 \<le> length (group_of st1 k)" by auto
      with False k(1) show ?thesis by simp
    qed
  qed
  from Cons.IH [OF pk w1 inv cond] show ?case .
qed

text \<open>
  C7, amended. The correlation keys are removed from the groups the packer packs: when
  \<open>_pack_links\<close> has returned, no link of a group that had two or more entries has any of
  the four keys. A group with one entry, or none, is left untouched: the body of the loop
  over the groups returns the state it was given, so the links of such a group keep the
  keys they have.
\<close>

theorem packed_groups_stripped:
  "(pack_links cfg st = Inr st' \<and> wf_links st \<and> 2 \<le> length (group_of st k) \<longrightarrow>
      (\<forall>a\<in>set (group_of st' k). stripped (heap st' ! a))) \<and>
   (map_of (links_dict st) h = Some pool \<and> length pool \<le> 1 \<longrightarrow> pack_group cfg h st = Inr st)"
proof (intro conjI impI)
  assume a: "pack_links cfg st = Inr st' \<and> wf_links st \<and> 2 \<le> length (group_of st k)"
  then obtain g where "map_of (links_dict st) k = Some g"
    by (cases "map_of (links_dict st) k") (simp_all add: group_of_def)
  then have "k \<in> set (map fst (links_dict st))"
    by (auto dest: map_of_SomeD intro: rev_image_eqI)
  with a have c: "k \<in> {} \<or> (k \<in> set (map fst (links_dict st)) \<and> 2 \<le> length (group_of st k))"
    by simp
  have i: "\<forall>k\<in>{}. \<forall>a\<in>set (group_of st k). stripped (heap st ! a)" by simp
  from a have w: "wf_links st" by simp
  from a have "pack_keys cfg (length (links_dict st)) (map fst (links_dict st)) st = Inr st'"
    by (simp add: pack_links_def)
  from this w i c show "\<forall>a\<in>set (group_of st' k). stripped (heap st' ! a)"
    by (rule pack_keys_stripped)
next
  assume "map_of (links_dict st) h = Some pool \<and> length pool \<le> 1"
  then show "pack_group cfg h st = Inr st"
    by (simp add: pack_group_def)
qed

theorem packed_groups_stripped_witness:
  "(\<exists>st'. pack_links ex_cfg
            (form_base_graph_dict ex_fnmatchcase ex_cfg (init_state\<lparr>parsed_data := ex_three\<rparr>))
            = Inr st' \<and>
          length (group_of st' [''100:L2'', ''R1'', ''R2'']) = 2 \<and>
          list_all (\<lambda>a. stripped (heap st' ! a)) (group_of st' [''100:L2'', ''R1'', ''R2''])) \<and>
   pack_group ex_cfg [''100:L2'', ''R1'', ''R2'']
     (form_base_graph_dict ex_fnmatchcase ex_cfg (init_state\<lparr>parsed_data := ex_one\<rparr>))
   = Inr (form_base_graph_dict ex_fnmatchcase ex_cfg (init_state\<lparr>parsed_data := ex_one\<rparr>))"
proof (intro conjI)
  let ?st = "form_base_graph_dict ex_fnmatchcase ex_cfg (init_state\<lparr>parsed_data := ex_three\<rparr>)"
  let ?k = "[''100:L2'', ''R1'', ''R2'']"
  have "case pack_links ex_cfg ?st of Inl e \<Rightarrow> False
        | Inr s \<Rightarrow> length (group_of s ?k) = 2"
    by code_simp
  then obtain st' where p: "pack_links ex_cfg ?st = Inr st'" and n: "length (group_of st' ?k) = 2"
    by (cases "pack_links ex_cfg ?st") auto
  have w: "wf_links ?st" by code_simp
  have g: "2 \<le> length (group_of ?st ?k)" by code_simp
  from packed_groups_stripped [of ex_cfg ?st st' ?k] p w g
  have "\<forall>a\<in>set (group_of st' ?k). stripped (heap st' ! a)" by blast
  then have "list_all (\<lambda>a. stripped (heap st' ! a)) (group_of st' ?k)"
    by (simp add: list_all_iff)
  with p n show "\<exists>st'. pack_links ex_cfg ?st = Inr st' \<and> length (group_of st' ?k) = 2 \<and>
          list_all (\<lambda>a. stripped (heap st' ! a)) (group_of st' ?k)"
    by blast
next
  let ?st = "form_base_graph_dict ex_fnmatchcase ex_cfg (init_state\<lparr>parsed_data := ex_one\<rparr>)"
  let ?k = "[''100:L2'', ''R1'', ''R2'']"
  have m: "map_of (links_dict ?st) ?k = Some [0]" by code_simp
  from packed_groups_stripped [where st = ?st and h = ?k and pool = "[0]" and cfg = ex_cfg] m
  show "pack_group ex_cfg ?k ?st = Inr ?st" by simp
qed

subsection \<open>Packing a group of three links that carry descriptions\<close>

text \<open>
  The body of the loop over the groups, for a group of one link and for a group of three
  links with descriptions and one label, two of which mirror each other's interface ids.
  The group of one is left as it is. The group of three ends with two entries: a candidate
  \<open>c\<close> that took its target label from the source label of its partner \<open>p\<close>, and the third
  link \<open>u\<close> without its correlation keys and otherwise as it was; the partner is gone.
\<close>

lemma pack_group_single:
  "map_of (links_dict st) k = Some [a] \<Longrightarrow> pack_group cfg k st = Inr st"
  by (simp add: pack_group_def)

lemma pack_pool_alone:
  assumes "pool \<noteq> []" and "pop_keys (heap st ! last pool) = Inr (lid, pid, pip, lip, l')"
    and "find_partner lid pid pip lip ((heap st)[last pool := l']) (butlast pool) = Inr None"
  shows "pack_pool cfg pool st
         = pack_pool cfg (butlast pool)
             (add_link cfg (last pool) [] (st\<lparr>heap := (heap st)[last pool := l']\<rparr>))"
  using assms by (subst pack_pool.simps) (simp add: Let_def)

lemma pack_pool_paired:
  assumes "pool \<noteq> []" and "pop_keys (heap st ! last pool) = Inr (lid, pid, pip, lip, l')"
    and "find_partner lid pid pip lip ((heap st)[last pool := l']) (butlast pool) = Inr (Some b)"
    and "merge_pair cfg (last pool) b (st\<lparr>heap := (heap st)[last pool := l']\<rparr>) = Inr st2"
    and "list_index (deref st2 (butlast pool)) (heap st2 ! b) = Some j"
  shows "pack_pool cfg pool st = pack_pool cfg (remove_at j (butlast pool)) st2"
  using assms by (subst pack_pool.simps) (simp add: Let_def)

lemma pop_keys_raw:
  assumes "raw_link l"
  shows "\<exists>lid pid pip lip. pop_keys l = Inr (lid, pid, pip, lip, strip_keys l) \<and>
           local_intf_id l = Some lid \<and> peer_intf_id l = Some pid \<and>
           peer_ip l = Some pip \<and> local_ip l = Some lip"
  using assms by (auto simp: raw_link_def pop_keys_def strip_keys_def)

lemma hash_strip_keys [simp]: "make_hash_tuple (strip_keys l) = make_hash_tuple l"
  by (simp add: make_hash_tuple_def strip_keys_def)

lemma add_link_new:
  assumes "heap st ! a \<notin> set (deref st (group_of st (make_hash_tuple (heap st ! a))))"
  shows "add_link cfg a [] st
         = st\<lparr>links_dict := AList.update (make_hash_tuple (heap st ! a))
                              (group_of st (make_hash_tuple (heap st ! a)) @ [a]) (links_dict st)\<rparr>"
  using assms by (simp add: add_link_def Let_def)

lemma merge_pair_new:
  assumes "a < length (heap st)" and "a \<noteq> b"
    and "src_label (heap st ! b) = Some sl"
    and "description (heap st ! a) = Some d1" and "description (heap st ! b) = Some d2"
    and "label (heap st ! a) = Some lab" and "label (heap st ! b) = Some lab"
    and "trgt_label (heap st ! a) = None"
    and "\<forall>x\<in>set (group_of st (make_hash_tuple (heap st ! a))). x \<noteq> a \<and> trgt_label (heap st ! x) = None"
  shows "\<exists>d. merge_pair cfg a b st
         = Inr (st\<lparr>heap := (heap st)[a := (heap st ! a)\<lparr>trgt_label := Some sl, description := d\<rparr>],
                   links_dict := AList.update (make_hash_tuple (heap st ! a))
                      (group_of st (make_hash_tuple (heap st ! a)) @ [a]) (links_dict st)\<rparr>)"
proof -
  let ?k = "make_hash_tuple (heap st ! a)"
  let ?m = "(heap st ! a)\<lparr>trgt_label := Some sl\<rparr>"
  let ?st1 = "st\<lparr>heap := (heap st)[a := ?m]\<rparr>"
  let ?ld = "dict_merge (json_loads d1) (json_loads d2)"
  let ?d = "if ?ld \<noteq> [] \<and> add_data cfg then Some (json_dumps ?ld) else Some d1"
  have hk: "make_hash_tuple ?m = ?k" by (simp add: make_hash_tuple_def)
  have g1: "group_of ?st1 ?k = group_of st ?k" by (simp add: group_of_def)
  have notin: "?m \<notin> set (deref ?st1 (group_of st ?k))"
  proof
    assume "?m \<in> set (deref ?st1 (group_of st ?k))"
    then obtain x where x: "x \<in> set (group_of st ?k)" "?m = heap ?st1 ! x"
      by (auto simp: deref_def)
    with assms(9) have "x \<noteq> a" "trgt_label (heap st ! x) = None" by auto
    with x(2) have "trgt_label ?m = None" by simp
    then show False by simp
  qed
  have dm: "?m\<lparr>description := Some d1\<rparr> = ?m"
    using assms(4) by (cases "heap st ! a") simp
  have al: "add_link cfg a ?ld ?st1
        = st\<lparr>heap := (heap st)[a := ?m\<lparr>description := ?d\<rparr>],
             links_dict := AList.update ?k (group_of st ?k @ [a]) (links_dict st)\<rparr>"
    using assms(1) notin dm by (auto simp: add_link_def Let_def hk g1)
  have "merge_pair cfg a b st
        = Inr (st\<lparr>heap := (heap st)[a := ?m\<lparr>description := ?d\<rparr>],
             links_dict := AList.update ?k (group_of st ?k @ [a]) (links_dict st)\<rparr>)"
    using assms(1-7) by (simp add: merge_pair_def Let_def al)
  then show ?thesis by auto
qed


lemma find_pair_Some:
  "find_pair k1 k2 x y h pool = Inr (Some b) \<Longrightarrow>
   b \<in> set pool \<and> k1 (h ! b) = Some x \<and> k2 (h ! b) = Some y"
  by (induction pool) (auto split: option.splits if_splits)

lemma find_pair_total:
  "\<forall>b\<in>set pool. k1 (h ! b) \<noteq> None \<and> k2 (h ! b) \<noteq> None \<Longrightarrow>
   \<exists>r. find_pair k1 k2 x y h pool = Inr r"
  by (induction pool) (auto split: option.splits)

lemma find_pair_found:
  "\<forall>b\<in>set pool. k1 (h ! b) \<noteq> None \<and> k2 (h ! b) \<noteq> None \<Longrightarrow>
   p \<in> set pool \<Longrightarrow> k1 (h ! p) = Some x \<Longrightarrow> k2 (h ! p) = Some y \<Longrightarrow>
   \<exists>b. find_pair k1 k2 x y h pool = Inr (Some b)"
  by (induction pool) (auto split: option.splits)

lemma find_pair_index:
  assumes "find_pair k1 k2 x y h pool = Inr (Some b)" and "\<forall>z\<in>set pool. h' ! z = h ! z"
  shows "\<exists>j<length pool. list_index (map ((!) h') pool) (h' ! b) = Some j \<and> pool ! j = b"
  using assms
proof (induction pool)
  case Nil
  then show ?case by simp
next
  case (Cons z zs)
  note m = find_pair_Some [OF Cons.prems(1)]
  show ?case
  proof (cases "h ! z = h ! b")
    case True
    with m Cons.prems(1) have "b = z" by (auto split: option.splits if_splits)
    then show ?thesis by auto
  next
    case False
    with Cons.prems(1) m have r: "find_pair k1 k2 x y h zs = Inr (Some b)"
      by (auto split: option.splits if_splits)
    from Cons.IH [OF r] Cons.prems(2) obtain j where
      "j < length zs" "list_index (map ((!) h') zs) (h' ! b) = Some j" "zs ! j = b"
      by auto
    moreover from m Cons.prems(2) False have "h' ! z \<noteq> h' ! b" by auto
    ultimately show ?thesis
      by (intro exI [of _ "Suc j"]) simp
  qed
qed

lemma find_partner_Nil: "find_partner lid pid pip lip h [] = Inr None"
  by (simp add: find_partner_def)

lemma find_partner_total:
  "\<forall>b\<in>set pool. keys_present (h ! b) \<Longrightarrow> \<exists>r. find_partner lid pid pip lip h pool = Inr r"
  unfolding find_partner_def keys_present_def
  using find_pair_total [of pool peer_intf_id h local_intf_id lid pid]
    find_pair_total [of pool peer_ip h local_ip lip pip]
  by auto

lemma find_partner_index:
  assumes "find_partner lid pid pip lip h pool = Inr (Some b)" and "\<forall>z\<in>set pool. h' ! z = h ! z"
  shows "b \<in> set pool \<and>
         (\<exists>j<length pool. list_index (map ((!) h') pool) (h' ! b) = Some j \<and> pool ! j = b)"
  using assms find_pair_index [of _ _ _ _ h pool b h'] find_pair_Some [of _ _ _ _ h pool b]
  by (auto simp: find_partner_def split: if_splits)

lemma find_partner_intf:
  assumes "\<forall>b\<in>set pool. keys_present (h ! b)" and "p \<in> set pool"
    and "truthy lid" and "truthy pid"
    and "peer_intf_id (h ! p) = Some lid" and "local_intf_id (h ! p) = Some pid"
  shows "\<exists>b. find_partner lid pid pip lip h pool = Inr (Some b)"
  using assms find_pair_found [of pool peer_intf_id h local_intf_id p lid pid]
  by (auto simp: find_partner_def keys_present_def)

lemma intf_pair_sym:
  "intf_pair c p \<Longrightarrow> intf_pair p c"
  by (auto simp: intf_pair_def split: option.splits)


lemma group_of_upd_same: "links_dict s = AList.update k g L \<Longrightarrow> group_of s k = g"
  by (simp add: group_of_def update_conv')

lemma raw_keys_present: "raw_link l \<Longrightarrow> keys_present l"
  by (simp add: raw_link_def keys_present_def)

lemma remove_at_pair:
  "j < 2 \<Longrightarrow> [x, y] ! j = b \<Longrightarrow> x \<noteq> y \<Longrightarrow>
   \<exists>u. remove_at j [x, y] = [u] \<and> u \<noteq> b \<and> set [b, u] = {x, y}"
  by (cases j) (auto simp: remove_at_def)

text \<open>The last round of the loop: one link left in the pool, one merged link in the group.\<close>

lemma pack_pool_last:
  assumes u: "u < length (heap s)" and ru: "raw_link (heap s ! u)"
    and hu: "make_hash_tuple (heap s ! u) = k"
    and gk: "group_of s k = [c]" and cu: "c \<noteq> u" and tc: "trgt_label (heap s ! c) \<noteq> None"
  shows "\<exists>s'. pack_pool cfg [u] s = Inr s' \<and> group_of s' k = [c, u] \<and>
              heap s' = (heap s)[u := strip_keys (heap s ! u)]"
proof -
  from pop_keys_raw [OF ru] obtain lid pid pip lip where
    pk: "pop_keys (heap s ! u) = Inr (lid, pid, pip, lip, strip_keys (heap s ! u))"
    by blast
  let ?H = "(heap s)[u := strip_keys (heap s ! u)]"
  let ?s1 = "s\<lparr>heap := ?H\<rparr>"
  have hu1: "?H ! u = strip_keys (heap s ! u)" using u by simp
  have hc1: "?H ! c = heap s ! c" using cu by simp
  have g1: "group_of ?s1 k = [c]" using gk by (simp add: group_of_def)
  have tu: "trgt_label (strip_keys (heap s ! u)) = None"
    using ru by (simp add: raw_link_def strip_keys_def)
  have "strip_keys (heap s ! u) \<noteq> heap s ! c"
    using tu tc by auto
  then have notin: "heap ?s1 ! u \<notin> set (deref ?s1 (group_of ?s1 (make_hash_tuple (heap ?s1 ! u))))"
    unfolding deref_def using g1 hu by (simp add: hu1 hc1 del: nth_list_update_eq)
  have al: "add_link cfg u [] ?s1
      = ?s1\<lparr>links_dict := AList.update k ([c] @ [u]) (links_dict ?s1)\<rparr>"
    using add_link_new [OF notin, of cfg] g1 hu by (simp add: hu1 del: nth_list_update_eq)
  have "pack_pool cfg [u] s = pack_pool cfg [] (add_link cfg u [] ?s1)"
    using pack_pool_alone [of "[u]" s lid pid pip lip "strip_keys (heap s ! u)" cfg] pk
    by (simp add: find_partner_Nil)
  then have "pack_pool cfg [u] s = Inr (?s1\<lparr>links_dict := AList.update k ([c] @ [u]) (links_dict ?s1)\<rparr>)"
    by (simp add: al pack_pool_Nil)
  moreover have "group_of (?s1\<lparr>links_dict := AList.update k ([c] @ [u]) (links_dict ?s1)\<rparr>) k = [c, u]"
    by (simp add: group_of_def update_conv')
  ultimately show ?thesis by simp
qed


text \<open>A round that finds a partner \<open>b\<close> for the candidate \<open>a\<close>.\<close>

lemma pack_pool_merge_round:
  assumes a: "a < length (heap s)" and ra: "raw_link (heap s ! a)" and nin: "a \<notin> set rest"
    and ha: "make_hash_tuple (heap s ! a) = k"
    and pk: "pop_keys (heap s ! a) = Inr (lid, pid, pip, lip, strip_keys (heap s ! a))"
    and fp: "find_partner lid pid pip lip ((heap s)[a := strip_keys (heap s ! a)]) rest
               = Inr (Some b)"
    and rb: "\<forall>x\<in>set rest. raw_link (heap s ! x) \<and> label (heap s ! x) = label (heap s ! a)"
    and gk: "\<forall>x\<in>set (group_of s k). x \<noteq> a \<and> trgt_label (heap s ! x) = None"
  shows "\<exists>d j. j < length rest \<and> rest ! j = b \<and>
           pack_pool cfg (rest @ [a]) s
             = pack_pool cfg (remove_at j rest)
                 (s\<lparr>heap := (heap s)[a := (strip_keys (heap s ! a))
                                          \<lparr>trgt_label := src_label (heap s ! b), description := d\<rparr>],
                    links_dict := AList.update k (group_of s k @ [a]) (links_dict s)\<rparr>)"
proof -
  let ?H = "(heap s)[a := strip_keys (heap s ! a)]"
  let ?s1 = "s\<lparr>heap := ?H\<rparr>"
  have same: "\<forall>z\<in>set rest. ?H ! z = heap s ! z"
    using nin by (metis nth_list_update_neq)
  from find_partner_index [OF fp, of ?H] have brest: "b \<in> set rest" by simp
  with nin have ba: "a \<noteq> b" by auto
  with a have Ha: "?H ! a = strip_keys (heap s ! a)" and Hb: "?H ! b = heap s ! b" by simp_all
  from rb brest have rawb: "raw_link (heap s ! b)" and lb: "label (heap s ! b) = label (heap s ! a)"
    by auto
  from rawb obtain sl d2 where sl: "src_label (heap s ! b) = Some sl"
    and d2: "description (heap s ! b) = Some d2"
    by (auto simp: raw_link_def)
  from ra obtain lab d1 where la: "label (heap s ! a) = Some lab"
    and d1: "description (heap s ! a) = Some d1" and ta: "trgt_label (heap s ! a) = None"
    by (auto simp: raw_link_def)
  have g1: "group_of ?s1 k = group_of s k" by (simp add: group_of_def)
  have gk1: "\<forall>x\<in>set (group_of ?s1 (make_hash_tuple (heap ?s1 ! a))).
               x \<noteq> a \<and> trgt_label (heap ?s1 ! x) = None"
    using gk a by (auto simp: ha g1)
  have "\<exists>d. merge_pair cfg a b ?s1
         = Inr (?s1\<lparr>heap := (heap ?s1)[a := (heap ?s1 ! a)\<lparr>trgt_label := Some sl, description := d\<rparr>],
                   links_dict := AList.update (make_hash_tuple (heap ?s1 ! a))
                      (group_of ?s1 (make_hash_tuple (heap ?s1 ! a)) @ [a]) (links_dict ?s1)\<rparr>)"
  proof (rule merge_pair_new [OF _ ba _ _ _ _ _ _ gk1])
    show "a < length (heap ?s1)" using a by simp
    show "src_label (heap ?s1 ! b) = Some sl" using sl ba by simp
    show "description (heap ?s1 ! a) = Some d1" using d1 a by (simp add: strip_keys_def)
    show "description (heap ?s1 ! b) = Some d2" using d2 ba by simp
    show "label (heap ?s1 ! a) = Some lab" using la a by (simp add: strip_keys_def)
    show "label (heap ?s1 ! b) = Some lab" using la lb ba by simp
    show "trgt_label (heap ?s1 ! a) = None" using ta a by (simp add: strip_keys_def)
  qed
  then obtain d where
    mp: "merge_pair cfg a b ?s1
         = Inr (s\<lparr>heap := (heap s)[a := (strip_keys (heap s ! a))
                                        \<lparr>trgt_label := src_label (heap s ! b), description := d\<rparr>],
                  links_dict := AList.update k (group_of s k @ [a]) (links_dict s)\<rparr>)"
    using a by (auto simp: ha g1 sl)
  let ?s2 = "s\<lparr>heap := (heap s)[a := (strip_keys (heap s ! a))
                                        \<lparr>trgt_label := src_label (heap s ! b), description := d\<rparr>],
                  links_dict := AList.update k (group_of s k @ [a]) (links_dict s)\<rparr>"
  have same2: "\<forall>z\<in>set rest. heap ?s2 ! z = ?H ! z"
  proof
    fix z assume "z \<in> set rest"
    with nin have "a \<noteq> z" by blast
    then show "heap ?s2 ! z = ?H ! z" by simp
  qed
  from find_partner_index [OF fp same2] obtain j where
    j: "j < length rest" "list_index (map ((!) (heap ?s2)) rest) (heap ?s2 ! b) = Some j"
      "rest ! j = b"
    by blast
  have "pack_pool cfg (rest @ [a]) s = pack_pool cfg (remove_at j rest) ?s2"
    using pack_pool_paired [of "rest @ [a]" s lid pid pip lip "strip_keys (heap s ! a)" b cfg ?s2 j]
      pk fp mp j(2)
    by (simp add: deref_def)
  with j(1,3) show ?thesis by blast
qed

text \<open>A round that finds no partner for the candidate \<open>a\<close>, the group being empty so far.\<close>

lemma pack_pool_alone_round:
  assumes pk: "pop_keys (heap s ! a) = Inr (lid, pid, pip, lip, strip_keys (heap s ! a))"
    and fp: "find_partner lid pid pip lip ((heap s)[a := strip_keys (heap s ! a)]) rest = Inr None"
    and ha: "make_hash_tuple (heap s ! a) = k" and gk: "group_of s k = []"
  shows "pack_pool cfg (rest @ [a]) s
         = pack_pool cfg rest
             (s\<lparr>heap := (heap s)[a := strip_keys (heap s ! a)],
                links_dict := AList.update k [a] (links_dict s)\<rparr>)"
proof -
  let ?H = "(heap s)[a := strip_keys (heap s ! a)]"
  let ?s1 = "s\<lparr>heap := ?H\<rparr>"
  have hk: "make_hash_tuple (?H ! a) = k"
    using ha by (cases "a < length (heap s)") (simp_all add: list_update_beyond)
  have g1: "group_of ?s1 k = []" using gk by (simp add: group_of_def)
  have "heap ?s1 ! a \<notin> set (deref ?s1 (group_of ?s1 (make_hash_tuple (heap ?s1 ! a))))"
    using hk g1 by (simp add: deref_def del: nth_list_update_eq)
  from add_link_new [OF this, of cfg] hk g1
  have "add_link cfg a [] ?s1 = ?s1\<lparr>links_dict := AList.update k [a] (links_dict ?s1)\<rparr>"
    by (simp del: nth_list_update_eq)
  with pack_pool_alone [of "rest @ [a]" s lid pid pip lip "strip_keys (heap s ! a)" cfg] pk fp
  show ?thesis by simp
qed


lemma intf_pair_found:
  assumes "intf_pair c p" and "local_intf_id c = Some lid" and "peer_intf_id c = Some pid"
    and "\<forall>b\<in>set pool. keys_present (h ! b)" and "x \<in> set pool" and "h ! x = p"
  shows "\<exists>b. find_partner lid pid pip lip h pool = Inr (Some b)"
proof -
  from assms(1-3) have "truthy lid" "truthy pid" "peer_intf_id p = Some lid"
    "local_intf_id p = Some pid"
    by (simp_all add: intf_pair_def)
  with assms(4-6) show ?thesis
    by (intro find_partner_intf) auto
qed

lemma pack_group_three:
  assumes g: "map_of (links_dict st) k = Some [a0, a1, a2]"
    and dist: "distinct [a0, a1, a2]"
    and inb: "\<forall>a\<in>set [a0, a1, a2]. a < length (heap st) \<and> raw_link (heap st ! a) \<and>
                make_hash_tuple (heap st ! a) = k \<and> label (heap st ! a) = label (heap st ! a0)"
    and pair: "intf_pair (heap st ! a0) (heap st ! a1) \<or> intf_pair (heap st ! a0) (heap st ! a2) \<or>
               intf_pair (heap st ! a1) (heap st ! a2)"
  shows "\<exists>st' c p u d. pack_group cfg k st = Inr st' \<and> set [c, p, u] = {a0, a1, a2} \<and> c \<noteq> u \<and>
           length (group_of st' k) = 2 \<and> set (group_of st' k) = {c, u} \<and>
           heap st' ! c = (strip_keys (heap st ! c))
                            \<lparr>trgt_label := src_label (heap st ! p), description := d\<rparr> \<and>
           heap st' ! u = strip_keys (heap st ! u)"
proof -
  let ?l0 = "heap st ! a0" and ?l1 = "heap st ! a1" and ?l2 = "heap st ! a2"
  from dist have ne: "a0 \<noteq> a1" "a0 \<noteq> a2" "a1 \<noteq> a2" by auto
  from inb have b0: "a0 < length (heap st)" and b1: "a1 < length (heap st)"
    and b2: "a2 < length (heap st)"
    and r0: "raw_link ?l0" and r1: "raw_link ?l1" and r2: "raw_link ?l2"
    and h0: "make_hash_tuple ?l0 = k" and h1: "make_hash_tuple ?l1 = k"
    and h2: "make_hash_tuple ?l2 = k"
    and lab1: "label ?l1 = label ?l0" and lab2: "label ?l2 = label ?l0"
    by auto
  let ?st0 = "st\<lparr>links_dict := AList.update k [] (links_dict st)\<rparr>"
  have pg: "pack_group cfg k st = pack_pool cfg ([a0, a1] @ [a2]) ?st0"
    using g by (simp add: pack_group_def)
  have g0: "group_of ?st0 k = []" by (simp add: group_of_def update_conv')
  from pop_keys_raw [OF r2] obtain lid2 pid2 pip2 lip2 where
    pk2: "pop_keys ?l2 = Inr (lid2, pid2, pip2, lip2, strip_keys ?l2)"
    and i2: "local_intf_id ?l2 = Some lid2" "peer_intf_id ?l2 = Some pid2"
    by blast
  let ?H1 = "(heap st)[a2 := strip_keys ?l2]"
  have H1: "?H1 ! a0 = ?l0" "?H1 ! a1 = ?l1" "?H1 ! a2 = strip_keys ?l2"
    using ne b2 by simp_all
  have kp1: "\<forall>b\<in>set [a0, a1]. keys_present (?H1 ! b)"
    using r0 r1 by (simp add: H1 raw_keys_present del: nth_list_update_eq)
  from find_partner_total [OF kp1] obtain r where
    fp2: "find_partner lid2 pid2 pip2 lip2 ?H1 [a0, a1] = Inr r"
    by blast
  show ?thesis
  proof (cases r)
    case (Some b)
    have rb: "\<forall>x\<in>set [a0, a1]. raw_link (heap ?st0 ! x) \<and>
                label (heap ?st0 ! x) = label (heap ?st0 ! a2)"
      using r0 r1 lab1 lab2 by simp
    have gk: "\<forall>x\<in>set (group_of ?st0 k). x \<noteq> a2 \<and> trgt_label (heap ?st0 ! x) = None"
      by (simp add: g0)
    have "\<exists>d j. j < length [a0, a1] \<and> [a0, a1] ! j = b \<and>
           pack_pool cfg ([a0, a1] @ [a2]) ?st0
             = pack_pool cfg (remove_at j [a0, a1])
                 (?st0\<lparr>heap := (heap ?st0)[a2 := (strip_keys (heap ?st0 ! a2))
                                          \<lparr>trgt_label := src_label (heap ?st0 ! b), description := d\<rparr>],
                    links_dict := AList.update k (group_of ?st0 k @ [a2]) (links_dict ?st0)\<rparr>)"
    proof (rule pack_pool_merge_round [where lid = lid2 and pid = pid2 and pip = pip2 and lip = lip2])
      show "a2 < length (heap ?st0)" using b2 by simp
      show "raw_link (heap ?st0 ! a2)" using r2 by simp
      show "a2 \<notin> set [a0, a1]" using ne by simp
      show "make_hash_tuple (heap ?st0 ! a2) = k" using h2 by simp
      show "pop_keys (heap ?st0 ! a2) = Inr (lid2, pid2, pip2, lip2, strip_keys (heap ?st0 ! a2))"
        using pk2 by simp
      show "find_partner lid2 pid2 pip2 lip2 ((heap ?st0)[a2 := strip_keys (heap ?st0 ! a2)]) [a0, a1]
              = Inr (Some b)"
        using fp2 Some by simp
      show "\<forall>x\<in>set [a0, a1]. raw_link (heap ?st0 ! x) \<and>
                label (heap ?st0 ! x) = label (heap ?st0 ! a2)"
        by (rule rb)
      show "\<forall>x\<in>set (group_of ?st0 k). x \<noteq> a2 \<and> trgt_label (heap ?st0 ! x) = None"
        by (rule gk)
    qed
    then have "\<exists>d j. j < Suc (Suc 0) \<and> [a0, a1] ! j = b \<and>
           pack_pool cfg ([a0, a1] @ [a2]) ?st0
             = pack_pool cfg (remove_at j [a0, a1])
                 (?st0\<lparr>heap := (heap st)[a2 := (strip_keys ?l2)
                                          \<lparr>trgt_label := src_label (heap st ! b), description := d\<rparr>],
                    links_dict := AList.update k ([] @ [a2]) (links_dict ?st0)\<rparr>)"
      by (simp add: g0)
    then obtain d j where j': "j < Suc (Suc 0)" "[a0, a1] ! j = b"
      and pp: "pack_pool cfg ([a0, a1] @ [a2]) ?st0
             = pack_pool cfg (remove_at j [a0, a1])
                 (?st0\<lparr>heap := (heap st)[a2 := (strip_keys ?l2)
                                          \<lparr>trgt_label := src_label (heap st ! b), description := d\<rparr>],
                    links_dict := AList.update k ([] @ [a2]) (links_dict ?st0)\<rparr>)"
      by blast
    from j' have j: "j < 2" "[a0, a1] ! j = b" by simp_all
    let ?s2 = "?st0\<lparr>heap := (heap st)[a2 := (strip_keys ?l2)
                                          \<lparr>trgt_label := src_label (heap st ! b), description := d\<rparr>],
                    links_dict := AList.update k ([] @ [a2]) (links_dict ?st0)\<rparr>"
    from remove_at_pair [OF j ne(1)] obtain u where
      u: "remove_at j [a0, a1] = [u]" "u \<noteq> b" "set [b, u] = {a0, a1}"
      by blast
    from u(3) have uin: "u = a0 \<or> u = a1" and bin: "b = a0 \<or> b = a1" by auto
    from uin ne have u2: "a2 \<noteq> u" by auto
    from bin r0 r1 obtain sl where sl: "src_label (heap st ! b) = Some sl"
      by (auto simp: raw_link_def)
    have hu: "heap ?s2 ! u = heap st ! u" using u2 by simp
    have hc: "heap ?s2 ! a2 = (strip_keys ?l2)
                \<lparr>trgt_label := src_label (heap st ! b), description := d\<rparr>"
      using b2 by simp
    have "\<exists>s'. pack_pool cfg [u] ?s2 = Inr s' \<and> group_of s' k = [a2, u] \<and>
              heap s' = (heap ?s2)[u := strip_keys (heap ?s2 ! u)]"
    proof (rule pack_pool_last)
      show "u < length (heap ?s2)" using uin b0 b1 by auto
      show "raw_link (heap ?s2 ! u)" unfolding hu using uin r0 r1 by auto
      show "make_hash_tuple (heap ?s2 ! u) = k" unfolding hu using uin h0 h1 by auto
      show "group_of ?s2 k = [a2]" by (simp add: group_of_def update_conv')
      show "a2 \<noteq> u" by (rule u2)
      show "trgt_label (heap ?s2 ! a2) \<noteq> None" unfolding hc by (simp add: sl)
    qed
    then obtain s' where s': "pack_pool cfg [u] ?s2 = Inr s'" "group_of s' k = [a2, u]"
      "heap s' = (heap ?s2)[u := strip_keys (heap ?s2 ! u)]"
      by blast
    have 1: "pack_group cfg k st = Inr s'" using pg pp u(1) s'(1) by simp
    have 2: "set [a2, b, u] = {a0, a1, a2}" using u(3) by auto
    have 3: "heap s' ! a2 = (strip_keys ?l2)
                \<lparr>trgt_label := src_label (heap st ! b), description := d\<rparr>"
      unfolding s'(3) using u2 hc by (simp del: nth_list_update_eq)
    have ub: "u < length (heap ?s2)" using uin b0 b1 by auto
    have "heap s' ! u = strip_keys (heap ?s2 ! u)"
      unfolding s'(3) by (rule nth_list_update_eq [OF ub])
    also have "\<dots> = strip_keys (heap st ! u)" by (simp only: hu)
    finally have 4: "heap s' ! u = strip_keys (heap st ! u)" .
    have 5: "length (group_of s' k) = 2" "set (group_of s' k) = {a2, u}"
      using s'(2) by simp_all
    from 1 2 u2 5 3 4 show ?thesis by blast
  next
    case None
    let ?s2 = "?st0\<lparr>heap := ?H1, links_dict := AList.update k [a2] (links_dict ?st0)\<rparr>"
    have pp1: "pack_pool cfg ([a0, a1] @ [a2]) ?st0 = pack_pool cfg [a0, a1] ?s2"
      using pack_pool_alone_round [of ?st0 a2 lid2 pid2 pip2 lip2 "[a0, a1]" k cfg]
        pk2 fp2 None h2 g0
      by simp
    have n20: "\<not> intf_pair ?l2 ?l0"
    proof
      assume "intf_pair ?l2 ?l0"
      from intf_pair_found [OF this i2 kp1, of a0 pip2 lip2] fp2 None show False
        by (simp add: H1 del: nth_list_update_eq)
    qed
    have n21: "\<not> intf_pair ?l2 ?l1"
    proof
      assume "intf_pair ?l2 ?l1"
      from intf_pair_found [OF this i2 kp1, of a1 pip2 lip2] fp2 None show False
        by (simp add: H1 del: nth_list_update_eq)
    qed
    from pair n20 n21 have p10: "intf_pair ?l1 ?l0"
      using intf_pair_sym by blast
    have hs2: "heap ?s2 ! a0 = ?l0" "heap ?s2 ! a1 = ?l1" "heap ?s2 ! a2 = strip_keys ?l2"
      using H1 by simp_all
    from pop_keys_raw [OF r1] obtain lid1 pid1 pip1 lip1 where
      pk1: "pop_keys ?l1 = Inr (lid1, pid1, pip1, lip1, strip_keys ?l1)"
      and i1: "local_intf_id ?l1 = Some lid1" "peer_intf_id ?l1 = Some pid1"
      by blast
    let ?H2 = "(heap ?s2)[a1 := strip_keys (heap ?s2 ! a1)]"
    have H2: "?H2 ! a0 = ?l0" using ne hs2 by simp
    have kp2: "\<forall>b\<in>set [a0]. keys_present (?H2 ! b)"
      using r0 H2 by (simp add: raw_keys_present del: nth_list_update_eq)
    from intf_pair_found [OF p10 i1 kp2, of a0 pip1 lip1] H2 obtain b where
      fp1: "find_partner lid1 pid1 pip1 lip1 ?H2 [a0] = Inr (Some b)"
      by auto
    have g2: "group_of ?s2 k = [a2]" by (simp add: group_of_def update_conv')
    have rb: "\<forall>x\<in>set [a0]. raw_link (heap ?s2 ! x) \<and> label (heap ?s2 ! x) = label (heap ?s2 ! a1)"
      using r0 lab1 hs2 by simp
    have t2: "trgt_label (strip_keys ?l2) = None"
      using r2 by (simp add: raw_link_def strip_keys_def)
    have gk: "\<forall>x\<in>set (group_of ?s2 k). x \<noteq> a1 \<and> trgt_label (heap ?s2 ! x) = None"
    proof (unfold g2, intro ballI)
      fix x assume "x \<in> set [a2]"
      then have x: "x = a2" by simp
      from t2 ne show "x \<noteq> a1 \<and> trgt_label (heap ?s2 ! x) = None"
        unfolding x hs2(3) by simp
    qed
    have "\<exists>d j. j < length [a0] \<and> [a0] ! j = b \<and>
           pack_pool cfg ([a0] @ [a1]) ?s2
             = pack_pool cfg (remove_at j [a0])
                 (?s2\<lparr>heap := (heap ?s2)[a1 := (strip_keys (heap ?s2 ! a1))
                                          \<lparr>trgt_label := src_label (heap ?s2 ! b), description := d\<rparr>],
                    links_dict := AList.update k (group_of ?s2 k @ [a1]) (links_dict ?s2)\<rparr>)"
    proof (rule pack_pool_merge_round [where lid = lid1 and pid = pid1 and pip = pip1 and lip = lip1])
      show "a1 < length (heap ?s2)" using b1 by simp
      show "raw_link (heap ?s2 ! a1)" using r1 hs2 by simp
      show "a1 \<notin> set [a0]" using ne by simp
      show "make_hash_tuple (heap ?s2 ! a1) = k" using h1 hs2 by simp
      show "pop_keys (heap ?s2 ! a1) = Inr (lid1, pid1, pip1, lip1, strip_keys (heap ?s2 ! a1))"
        using pk1 hs2 by simp
      show "find_partner lid1 pid1 pip1 lip1 ?H2 [a0] = Inr (Some b)" by (rule fp1)
      show "\<forall>x\<in>set [a0]. raw_link (heap ?s2 ! x) \<and> label (heap ?s2 ! x) = label (heap ?s2 ! a1)"
        by (rule rb)
      show "\<forall>x\<in>set (group_of ?s2 k). x \<noteq> a1 \<and> trgt_label (heap ?s2 ! x) = None"
        by (rule gk)
    qed
    then obtain d j where j: "j < length [a0]" "[a0] ! j = b"
      and pp2: "pack_pool cfg ([a0] @ [a1]) ?s2
             = pack_pool cfg (remove_at j [a0])
                 (?s2\<lparr>heap := (heap ?s2)[a1 := (strip_keys (heap ?s2 ! a1))
                                          \<lparr>trgt_label := src_label (heap ?s2 ! b), description := d\<rparr>],
                    links_dict := AList.update k (group_of ?s2 k @ [a1]) (links_dict ?s2)\<rparr>)"
      by blast
    from j have j0: "j = 0" and ba: "b = a0" by simp_all
    let ?s3 = "?s2\<lparr>heap := (heap ?s2)[a1 := (strip_keys ?l1)
                                          \<lparr>trgt_label := src_label ?l0, description := d\<rparr>],
                    links_dict := AList.update k ([a2] @ [a1]) (links_dict ?s2)\<rparr>"
    have "pack_pool cfg [a0, a1] ?s2 = Inr ?s3"
      using pp2 hs2
      by (simp add: j0 ba group_of_def update_conv' remove_at_def pack_pool_Nil
          del: nth_list_update_eq)
    with pg pp1 have 1: "pack_group cfg k st = Inr ?s3" by simp
    have 2: "group_of ?s3 k = [a2, a1]" by (simp add: group_of_def update_conv')
    have 3: "heap ?s3 ! a1 = (strip_keys ?l1)\<lparr>trgt_label := src_label ?l0, description := d\<rparr>"
      using b1 by simp
    have 4: "heap ?s3 ! a2 = strip_keys ?l2" using ne b2 by simp
    have 5: "length (group_of ?s3 k) = 2" "set (group_of ?s3 k) = {a1, a2}"
      unfolding 2 by auto
    have 6: "set [a1, a0, a2] = {a0, a1, a2}" by auto
    from 1 6 ne(3) 5 3 4 show ?thesis by blast
  qed
qed

end
